theory Spec2Isabelle
  imports Main "HOL-Library.Word" "HOL-Library.Sublist"
begin

section \<open>Player login data: presence, load pipeline, save transaction, lookups\<close>

text \<open>
  A shallow embedding of \<^verbatim>\<open>src/io/iologindata.cpp\<close>. The functions of
  \<^verbatim>\<open>IOLoginData\<close> are translated one by one. Everything they call that
  lives in another translation unit is either an explicit parameter (the database, the
  account class, the loader and saver collaborators), so that the theorems hold for all
  behaviours of those collaborators, or, for the metrics counter and the transaction
  wrapper, a definition marked as modelled from the spec.
\<close>

subsection \<open>Shared data\<close>

type_synonym uint32_t = "32 word"

datatype log_level = LogWarn | LogError

type_synonym log_line = "log_level \<times> string"

text \<open>
  The two handlers of \<^verbatim>\<open>loadPlayer\<close> distinguish \<^verbatim>\<open>std::system_error\<close>
  from any other \<^verbatim>\<open>std::exception\<close>; \<^verbatim>\<open>DatabaseException\<close> is what
  \<^verbatim>\<open>savePlayerGuard\<close> throws. Each carries its \<^verbatim>\<open>what()\<close> text.
\<close>

datatype exn = SystemError string | StdException string | DatabaseException string

fun what :: "exn \<Rightarrow> string" where
  "what (SystemError m) = m"
| "what (StdException m) = m"
| "what (DatabaseException m) = m"

subsection \<open>Online status tracker (\<^verbatim>\<open>updateOnlineStatus\<close>, lines 72--91)\<close>

text \<open>
  The two statements the function formats:
  \<^verbatim>\<open>INSERT INTO `players_online` VALUES (guid, worldId)\<close> and
  \<^verbatim>\<open>DELETE FROM `players_online` WHERE `player_id` = guid AND `world_id` = worldId\<close>.
\<close>

datatype 'wid presence_query =
    InsertPlayersOnline uint32_t 'wid
  | DeletePlayersOnline uint32_t 'wid

text \<open>
  What the function reads from its surroundings: the world id
  (\<^verbatim>\<open>g_game().worlds()->getId()\<close>) and the database's
  \<^verbatim>\<open>executeQuery\<close>, whose boolean result the function drops.
\<close>

record ('wid, 'db) online_env =
  worldId :: 'wid
  executeQuery :: "'wid presence_query \<Rightarrow> 'db \<Rightarrow> bool \<times> 'db"

text \<open>
  What it changes: the function-static map \<^verbatim>\<open>updateOnline\<close>, the up/down
  counters of \<^verbatim>\<open>g_metrics()\<close> (by name), and the database.
\<close>

record 'db online_state =
  updateOnline :: "uint32_t \<rightharpoonup> bool"
  metrics :: "string \<Rightarrow> int"
  database :: 'db

text \<open>
  Modelled from the spec: \<^verbatim>\<open>g_metrics().addUpDownCounter\<close>, which is not part of
  the sources. The spec has ``an up/down counter keyed by a fixed metric name, incremented
  on markOnline, decremented on markOffline'': the call adds its value to the counter of
  that name.
\<close>

definition addUpDownCounter :: "string \<Rightarrow> int \<Rightarrow> (string \<Rightarrow> int) \<Rightarrow> (string \<Rightarrow> int)" where
  "addUpDownCounter name v m = m(name := m name + v)"

definition updateOnlineStatus ::
  "('wid, 'db) online_env \<Rightarrow> uint32_t \<Rightarrow> bool \<Rightarrow> 'db online_state \<Rightarrow> 'db online_state" where
  "updateOnlineStatus env guid login s =
     (if (login \<and> updateOnline s guid \<noteq> None) \<or> guid \<le> 0 then s
      else if login then
        s\<lparr>metrics := addUpDownCounter ''players_online'' 1 (metrics s),
          updateOnline := (updateOnline s)(guid \<mapsto> True),
          database := snd (executeQuery env (InsertPlayersOnline guid (worldId env)) (database s))\<rparr>
      else
        s\<lparr>metrics := addUpDownCounter ''players_online'' (- 1) (metrics s),
          updateOnline := (updateOnline s)(guid := None),
          database := snd (executeQuery env (DeletePlayersOnline guid (worldId env)) (database s))\<rparr>)"

subsection \<open>Statements that may throw\<close>

text \<open>
  A statement runs on a state and either completes or throws; \<open>and_then\<close> is the
  semicolon of C++: when the statement throws, the rest of the block is skipped and the
  exception leaves the block with the state reached so far.
\<close>

definition and_then ::
  "('w \<Rightarrow> exn option \<times> 'w) \<Rightarrow> ('w \<Rightarrow> (exn + 'a) \<times> 'w) \<Rightarrow> 'w \<Rightarrow> (exn + 'a) \<times> 'w" where
  "and_then stmt rest w =
     (case stmt w of (Some e, w') \<Rightarrow> (Inl e, w') | (None, w') \<Rightarrow> rest w')"

definition return_value :: "'a \<Rightarrow> 'w \<Rightarrow> (exn + 'a) \<times> 'w" where
  "return_value v w = (Inr v, w)"

subsection \<open>Load pipeline (\<^verbatim>\<open>loadPlayer\<close>, lines 94--198)\<close>

text \<open>The functions of \<^verbatim>\<open>IOLoginDataLoad\<close> that \<^verbatim>\<open>loadPlayer\<close> calls.\<close>

datatype loader =
    LoadPlayerFirst
  | LoadPlayerExperience
  | LoadPlayerBlessings
  | LoadPlayerConditions
  | LoadPlayerDefaultOutfit
  | LoadPlayerSkullSystem
  | LoadPlayerSkill
  | LoadPlayerKills
  | LoadPlayerGuild
  | LoadPlayerStashItems
  | LoadPlayerBestiaryCharms
  | LoadPlayerInventoryItems
  | LoadPlayerStoreInbox
  | LoadPlayerDepotItems
  | LoadRewardItems
  | LoadPlayerInboxItems
  | LoadPlayerStorageMap
  | LoadPlayerVip
  | LoadPlayerPreyClass
  | LoadPlayerTaskHuntingClass
  | LoadPlayerInstantSpellList
  | LoadPlayerForgeHistory
  | LoadPlayerBosstiary
  | LoadPlayerInitializeSystem
  | LoadPlayerUpdateSystem

text \<open>The two \<^verbatim>\<open>SELECT * FROM `players`\<close> statements of the by-id and by-name entry points.\<close>

datatype 'wid players_query =
    SelectPlayerById uint32_t 'wid
  | SelectPlayerByName string 'wid

text \<open>
  The collaborators, over \<open>'h\<close>: everything they read or change (the player object
  behind the pointer \<open>'p\<close>, the cursor behind \<open>'r\<close>, the database). A loader
  returns nothing; it completes (\<open>None\<close>) or throws, and in both cases leaves the
  objects as far as it got. \<open>load_storeQuery\<close> yields the null pointer
  (\<open>None\<close>) or a cursor.
\<close>

record ('p, 'r, 'h, 'wid) load_env =
  with_result :: "loader \<Rightarrow> 'p \<Rightarrow> 'r \<Rightarrow> 'h \<Rightarrow> exn option \<times> 'h"
  player_only :: "loader \<Rightarrow> 'p \<Rightarrow> 'h \<Rightarrow> exn option \<times> 'h"
  load_worldId :: 'wid
  load_escapeString :: "string \<Rightarrow> string"
  load_storeQuery :: "'wid players_query \<Rightarrow> 'h \<Rightarrow> 'r option"

text \<open>
  The state of a load: the objects, the collaborator calls issued so far in the order
  they were issued, and the lines written to the logger.
\<close>

record 'h load_state =
  objects :: 'h
  invoked :: "loader list"
  warnings :: "log_line list"

definition call_with_result ::
  "('p, 'r, 'h, 'wid) load_env \<Rightarrow> loader \<Rightarrow> 'p \<Rightarrow> 'r \<Rightarrow> 'h load_state \<Rightarrow> exn option \<times> 'h load_state" where
  "call_with_result env l player result w =
     (case with_result env l player result (objects w) of
        (thrown, h') \<Rightarrow> (thrown, w\<lparr>objects := h', invoked := invoked w @ [l]\<rparr>))"

definition call_player_only ::
  "('p, 'r, 'h, 'wid) load_env \<Rightarrow> loader \<Rightarrow> 'p \<Rightarrow> 'h load_state \<Rightarrow> exn option \<times> 'h load_state" where
  "call_player_only env l player w =
     (case player_only env l player (objects w) of
        (thrown, h') \<Rightarrow> (thrown, w\<lparr>objects := h', invoked := invoked w @ [l]\<rparr>))"

text \<open>The body of the \<^verbatim>\<open>try\<close> block, lines 114--190.\<close>

definition loadPlayer_try ::
  "('p, 'r, 'h, 'wid) load_env \<Rightarrow> 'p \<Rightarrow> 'r \<Rightarrow> bool \<Rightarrow> 'h load_state \<Rightarrow> (exn + bool) \<times> 'h load_state" where
  "loadPlayer_try env player result disableIrrelevantInfo =
     and_then (call_with_result env LoadPlayerFirst player result)
    (and_then (call_with_result env LoadPlayerExperience player result)
    (and_then (call_with_result env LoadPlayerBlessings player result)
    (and_then (call_with_result env LoadPlayerConditions player result)
    (and_then (call_with_result env LoadPlayerDefaultOutfit player result)
    (and_then (call_with_result env LoadPlayerSkullSystem player result)
    (and_then (call_with_result env LoadPlayerSkill player result)
    (and_then (call_with_result env LoadPlayerKills player result)
    (and_then (call_with_result env LoadPlayerGuild player result)
    (and_then (call_with_result env LoadPlayerStashItems player result)
    (and_then (call_with_result env LoadPlayerBestiaryCharms player result)
    (and_then (call_with_result env LoadPlayerInventoryItems player result)
    (and_then (call_player_only env LoadPlayerStoreInbox player)
    (and_then (call_with_result env LoadPlayerDepotItems player result)
    (and_then (call_player_only env LoadRewardItems player)
    (and_then (call_with_result env LoadPlayerInboxItems player result)
    (and_then (call_with_result env LoadPlayerStorageMap player result)
    (and_then (call_with_result env LoadPlayerVip player result)
    (and_then (call_with_result env LoadPlayerPreyClass player result)
    (and_then (call_with_result env LoadPlayerTaskHuntingClass player result)
    (and_then (call_with_result env LoadPlayerInstantSpellList player result)
    (if disableIrrelevantInfo then return_value True
     else
     and_then (call_with_result env LoadPlayerForgeHistory player result)
    (and_then (call_with_result env LoadPlayerBosstiary player result)
    (and_then (call_player_only env LoadPlayerInitializeSystem player)
    (and_then (call_player_only env LoadPlayerUpdateSystem player)
    (return_value True)))))))))))))))))))))))))"

definition warn :: "string \<Rightarrow> 'h load_state \<Rightarrow> 'h load_state" where
  "warn msg w = w\<lparr>warnings := warnings w @ [(LogWarn, msg)]\<rparr>"

text \<open>
  The two handlers of lines 191--197. An exception that is neither a
  \<^verbatim>\<open>std::system_error\<close> nor a \<^verbatim>\<open>std::exception\<close> would not be caught;
  every exception of the model is one of the two (\<^const>\<open>DatabaseException\<close> derives
  from \<^verbatim>\<open>std::exception\<close>).
\<close>

fun loadPlayer_catch :: "(exn + bool) \<times> 'h load_state \<Rightarrow> bool \<times> 'h load_state" where
  "loadPlayer_catch (Inr b, w) = (b, w)"
| "loadPlayer_catch (Inl (SystemError m), w) =
     (False, warn (''[loadPlayer] Error while load player: '' @ m) w)"
| "loadPlayer_catch (Inl e, w) =
     (False, warn (''[loadPlayer] Error while load player: '' @ what e) w)"

text \<open>\<^verbatim>\<open>loadPlayer\<close>: the null check of lines 107--111, then the \<^verbatim>\<open>try\<close> block.\<close>

definition loadPlayer ::
  "('p, 'r, 'h, 'wid) load_env \<Rightarrow> 'p option \<Rightarrow> 'r option \<Rightarrow> bool \<Rightarrow> 'h load_state \<Rightarrow> bool \<times> 'h load_state" where
  "loadPlayer env player result disableIrrelevantInfo w =
     (if result = None \<or> player = None then
        (let nullptrType = (if result = None then ''Result'' else ''Player'')
         in (False, warn (''[loadPlayer] - '' @ nullptrType @ '' is nullptr'') w))
      else
        loadPlayer_catch (loadPlayer_try env (the player) (the result) disableIrrelevantInfo w))"

definition loadPlayerById ::
  "('p, 'r, 'h, 'wid) load_env \<Rightarrow> 'p option \<Rightarrow> uint32_t \<Rightarrow> bool \<Rightarrow> 'h load_state \<Rightarrow> bool \<times> 'h load_state" where
  "loadPlayerById env player ident disableIrrelevantInfo w =
     loadPlayer env player
       (load_storeQuery env (SelectPlayerById ident (load_worldId env)) (objects w))
       disableIrrelevantInfo w"

definition loadPlayerByName ::
  "('p, 'r, 'h, 'wid) load_env \<Rightarrow> 'p option \<Rightarrow> string \<Rightarrow> bool \<Rightarrow> 'h load_state \<Rightarrow> bool \<times> 'h load_state" where
  "loadPlayerByName env player name disableIrrelevantInfo w =
     loadPlayer env player
       (load_storeQuery env (SelectPlayerByName (load_escapeString env name) (load_worldId env)) (objects w))
       disableIrrelevantInfo w"

text \<open>
  The order of the calls as a list, read off lines 115--188: the steps both modes run,
  the block behind the \<^verbatim>\<open>disableIrrelevantInfo\<close> return, and the two together.
\<close>

definition minimal_order :: "loader list" where
  "minimal_order =
     [LoadPlayerFirst, LoadPlayerExperience, LoadPlayerBlessings, LoadPlayerConditions,
      LoadPlayerDefaultOutfit, LoadPlayerSkullSystem, LoadPlayerSkill, LoadPlayerKills,
      LoadPlayerGuild, LoadPlayerStashItems, LoadPlayerBestiaryCharms,
      LoadPlayerInventoryItems, LoadPlayerStoreInbox, LoadPlayerDepotItems, LoadRewardItems,
      LoadPlayerInboxItems, LoadPlayerStorageMap, LoadPlayerVip, LoadPlayerPreyClass,
      LoadPlayerTaskHuntingClass, LoadPlayerInstantSpellList]"

definition final_block :: "loader list" where
  "final_block =
     [LoadPlayerForgeHistory, LoadPlayerBosstiary, LoadPlayerInitializeSystem,
      LoadPlayerUpdateSystem]"

definition loader_order :: "loader list" where
  "loader_order = minimal_order @ final_block"

text \<open>The loaders called with the player alone (lines 151, 157, 187, 188).\<close>

fun takes_result :: "loader \<Rightarrow> bool" where
  "takes_result LoadPlayerStoreInbox = False"
| "takes_result LoadRewardItems = False"
| "takes_result LoadPlayerInitializeSystem = False"
| "takes_result LoadPlayerUpdateSystem = False"
| "takes_result _ = True"

definition call_loader ::
  "('p, 'r, 'h, 'wid) load_env \<Rightarrow> 'p \<Rightarrow> 'r \<Rightarrow> loader \<Rightarrow> 'h load_state \<Rightarrow> exn option \<times> 'h load_state" where
  "call_loader env player result l =
     (if takes_result l then call_with_result env l player result
      else call_player_only env l player)"

text \<open>
  The spec's reading of the pipeline (``executes the fixed ordered list of loader steps'';
  ``a step failure aborts the remaining steps''): the steps of a list, run from left to
  right until one throws, and \<open>True\<close> returned behind the last. The theorems compare
  \<^const>\<open>loadPlayer_try\<close> with it.
\<close>

fun run_loaders ::
  "('p, 'r, 'h, 'wid) load_env \<Rightarrow> 'p \<Rightarrow> 'r \<Rightarrow> loader list \<Rightarrow> 'h load_state \<Rightarrow> (exn + bool) \<times> 'h load_state" where
  "run_loaders env player result [] = return_value True"
| "run_loaders env player result (l # ls) =
     and_then (call_loader env player result l) (run_loaders env player result ls)"

text \<open>
  The collaborator behind a loader call of lines 115--188, on the objects alone: the
  function of \<^verbatim>\<open>IOLoginDataLoad\<close> applied to the player and the result, or to
  the player only.
\<close>

definition loader_call ::
  "('p, 'r, 'h, 'wid) load_env \<Rightarrow> 'p \<Rightarrow> 'r \<Rightarrow> loader \<Rightarrow> 'h \<Rightarrow> exn option \<times> 'h" where
  "loader_call env player result l h =
     (if takes_result l then with_result env l player result h else player_only env l player h)"

text \<open>
  What a list of loaders does to the objects when each collaborator is applied in turn and
  the first that throws ends the run: the loaders applied (the throwing one included),
  the exception if there was one, and the objects reached.
\<close>

fun loaders_effect ::
  "('p, 'r, 'h, 'wid) load_env \<Rightarrow> 'p \<Rightarrow> 'r \<Rightarrow> loader list \<Rightarrow> 'h \<Rightarrow> loader list \<times> exn option \<times> 'h" where
  "loaders_effect env player result [] h = ([], None, h)"
| "loaders_effect env player result (l # ls) h =
     (case loader_call env player result l h of
        (Some e, h') \<Rightarrow> ([l], Some e, h')
      | (None, h') \<Rightarrow>
          (case loaders_effect env player result ls h' of
             (applied, thrown, h'') \<Rightarrow> (l # applied, thrown, h'')))"

text \<open>The calls a run from \<open>w\<close> to \<open>w'\<close> has added.\<close>

definition calls_during :: "'h load_state \<Rightarrow> 'h load_state \<Rightarrow> loader list" where
  "calls_during w w' = drop (length (invoked w)) (invoked w')"

text \<open>\<open>a\<close> is called before the first call of \<open>b\<close>, in a sequence of calls that has \<open>b\<close>.\<close>

definition runs_before :: "'a \<Rightarrow> 'a \<Rightarrow> 'a list \<Rightarrow> bool" where
  "runs_before a b calls = (b \<in> set calls \<longrightarrow> a \<in> set (takeWhile (\<lambda>c. c \<noteq> b) calls))"

subsection \<open>Save transaction (\<^verbatim>\<open>savePlayer\<close>, \<^verbatim>\<open>savePlayerGuard\<close>, lines 200--278)\<close>

text \<open>
  The saver calls of \<^verbatim>\<open>savePlayerGuard\<close>: fourteen functions of
  \<^verbatim>\<open>IOLoginDataSave\<close> and \<^verbatim>\<open>player->wheel()->saveDBPlayerSlotPointsOnLogout()\<close>.
\<close>

datatype saver =
    SavePlayerFirst
  | SavePlayerStash
  | SavePlayerSpells
  | SavePlayerKills
  | SavePlayerBestiarySystem
  | SavePlayerItem
  | SavePlayerDepotItems
  | SaveRewardItems
  | SavePlayerInbox
  | SavePlayerPreyClass
  | SavePlayerTaskHuntingClass
  | SavePlayerForgeHistory
  | SavePlayerBosstiary
  | SaveDBPlayerSlotPointsOnLogout
  | SavePlayerStorage

text \<open>
  A saver reads the player and writes to the store \<open>'db\<close>; it returns whether it
  succeeded. \<open>getName\<close> is \<^verbatim>\<open>player->getName()\<close>.
\<close>

record ('p, 'db) save_env =
  save_step :: "saver \<Rightarrow> 'p \<Rightarrow> 'db \<Rightarrow> bool \<times> 'db"
  getName :: "'p \<Rightarrow> string"

record 'db save_state =
  store :: 'db
  saved :: "saver list"
  errors :: "log_line list"

text \<open>\<^verbatim>\<open>if (!saver(player)) { throw DatabaseException(msg); }\<close>\<close>

definition attempt ::
  "('p, 'db) save_env \<Rightarrow> saver \<Rightarrow> 'p \<Rightarrow> string \<Rightarrow> 'db save_state \<Rightarrow> exn option \<times> 'db save_state" where
  "attempt env s player msg w =
     (case save_step env s player (store w) of
        (ok, db') \<Rightarrow>
          (if \<not> ok then Some (DatabaseException msg) else None,
           w\<lparr>store := db', saved := saved w @ [s]\<rparr>))"

definition savePlayerGuard ::
  "('p, 'db) save_env \<Rightarrow> 'p option \<Rightarrow> 'db save_state \<Rightarrow> (exn + bool) \<times> 'db save_state" where
  "savePlayerGuard env player =
     (case player of
        None \<Rightarrow> (\<lambda>w. (Inl (DatabaseException (''Player nullptr in function: '' @ ''savePlayerGuard'')), w))
      | Some p \<Rightarrow>
     and_then (attempt env SavePlayerFirst p
       (''['' @ ''savePlayerGuard'' @ ''] - Failed to save player first: '' @ getName env p))
    (and_then (attempt env SavePlayerStash p
       (''[IOLoginDataSave::savePlayerFirst] - Failed to save player stash: '' @ getName env p))
    (and_then (attempt env SavePlayerSpells p
       (''[IOLoginDataSave::savePlayerSpells] - Failed to save player spells: '' @ getName env p))
    (and_then (attempt env SavePlayerKills p
       (''IOLoginDataSave::savePlayerKills] - Failed to save player kills: '' @ getName env p))
    (and_then (attempt env SavePlayerBestiarySystem p
       (''[IOLoginDataSave::savePlayerBestiarySystem] - Failed to save player bestiary system: '' @ getName env p))
    (and_then (attempt env SavePlayerItem p
       (''[IOLoginDataSave::savePlayerItem] - Failed to save player item: '' @ getName env p))
    (and_then (attempt env SavePlayerDepotItems p
       (''[IOLoginDataSave::savePlayerDepotItems] - Failed to save player depot items: '' @ getName env p))
    (and_then (attempt env SaveRewardItems p
       (''[IOLoginDataSave::saveRewardItems] - Failed to save player reward items: '' @ getName env p))
    (and_then (attempt env SavePlayerInbox p
       (''[IOLoginDataSave::savePlayerInbox] - Failed to save player inbox: '' @ getName env p))
    (and_then (attempt env SavePlayerPreyClass p
       (''[IOLoginDataSave::savePlayerPreyClass] - Failed to save player prey class: '' @ getName env p))
    (and_then (attempt env SavePlayerTaskHuntingClass p
       (''[IOLoginDataSave::savePlayerTaskHuntingClass] - Failed to save player task hunting class: '' @ getName env p))
    (and_then (attempt env SavePlayerForgeHistory p
       (''[IOLoginDataSave::savePlayerForgeHistory] - Failed to save player forge history: '' @ getName env p))
    (and_then (attempt env SavePlayerBosstiary p
       (''[IOLoginDataSave::savePlayerBosstiary] - Failed to save player bosstiary: '' @ getName env p))
    (and_then (attempt env SaveDBPlayerSlotPointsOnLogout p
       (''[PlayerWheel::saveDBPlayerSlotPointsOnLogout] - Failed to save player wheel info: '' @ getName env p))
    (and_then (attempt env SavePlayerStorage p
       (''[IOLoginDataSave::savePlayerStorage] - Failed to save player storage: '' @ getName env p))
    (return_value True))))))))))))))))"

text \<open>
  Modelled from the spec: \<^verbatim>\<open>DBTransaction::executeWithinTransaction\<close>, which is
  declared in the database header and is not part of the sources. The spec has: a
  transaction scope ``guarantees either all writes become durable (commit) or none do
  (rollback on scope exit via failure)'', and ``a commit failure after all steps succeed
  is itself a SaveError and must not be silently treated as success''. So the scope
  remembers the store it starts from; when the body throws, or when the store refuses
  the commit (\<open>commits\<close>), the store is put back and the result is \<open>False\<close>; otherwise
  the body's writes stay and its result is returned.
\<close>

definition executeWithinTransaction ::
  "('db \<Rightarrow> bool) \<Rightarrow> ('db save_state \<Rightarrow> (exn + bool) \<times> 'db save_state) \<Rightarrow> 'db save_state \<Rightarrow> bool \<times> 'db save_state" where
  "executeWithinTransaction commits toBeExecuted w =
     (let begun = store w in
      case toBeExecuted w of
        (Inl e, w') \<Rightarrow> (False, w'\<lparr>store := begun\<rparr>)
      | (Inr r, w') \<Rightarrow>
          if commits (store w') then (r, w') else (False, w'\<lparr>store := begun\<rparr>))"

definition savePlayer ::
  "('p, 'db) save_env \<Rightarrow> ('db \<Rightarrow> bool) \<Rightarrow> 'p option \<Rightarrow> 'db save_state \<Rightarrow> bool \<times> 'db save_state" where
  "savePlayer env commits player w =
     (case executeWithinTransaction commits (savePlayerGuard env player) w of
        (success, w') \<Rightarrow>
          if \<not> success
          then (success, w'\<lparr>errors := errors w' @ [(LogError, ''[savePlayer] Error occurred saving player'')]\<rparr>)
          else (success, w'))"

text \<open>The order of the saver calls as a list, read off lines 217--275.\<close>

definition saver_order :: "saver list" where
  "saver_order =
     [SavePlayerFirst, SavePlayerStash, SavePlayerSpells, SavePlayerKills,
      SavePlayerBestiarySystem, SavePlayerItem, SavePlayerDepotItems, SaveRewardItems,
      SavePlayerInbox, SavePlayerPreyClass, SavePlayerTaskHuntingClass,
      SavePlayerForgeHistory, SavePlayerBosstiary, SaveDBPlayerSlotPointsOnLogout,
      SavePlayerStorage]"

text \<open>
  The spec's reading of the save (``executes the fixed ordered list of saver steps'';
  ``the first step to fail aborts all remaining steps''): the steps of a list run from
  left to right until one returns \<open>False\<close>. The result says whether all succeeded.
\<close>

fun run_savers ::
  "('p, 'db) save_env \<Rightarrow> 'p \<Rightarrow> saver list \<Rightarrow> 'db save_state \<Rightarrow> bool \<times> 'db save_state" where
  "run_savers env player [] w = (True, w)"
| "run_savers env player (s # ss) w =
     (case save_step env s player (store w) of
        (ok, db') \<Rightarrow>
          (if ok then run_savers env player ss (w\<lparr>store := db', saved := saved w @ [s]\<rparr>)
           else (False, w\<lparr>store := db', saved := saved w @ [s]\<rparr>)))"

text \<open>What a caller that catches every exception sees of a block: its result, or \<open>False\<close>.\<close>

fun caught :: "(exn + bool) \<times> 'w \<Rightarrow> bool \<times> 'w" where
  "caught (Inl e, w) = (False, w)"
| "caught (Inr b, w) = (b, w)"

subsection \<open>Lookup by name (\<^verbatim>\<open>getGuidByName\<close>, lines 289--298)\<close>

text \<open>\<^verbatim>\<open>SELECT `id` FROM `players` WHERE `name` = name AND `world_id` = worldId\<close>\<close>

datatype 'wid guid_query = SelectIdByName string 'wid

text \<open>
  \<open>lookup_storeQuery\<close> is \<^verbatim>\<open>Database::storeQuery\<close>: the null pointer
  (\<open>None\<close>) or a result; \<open>getNumber_id\<close> is
  \<^verbatim>\<open>result->getNumber<uint32_t>("id")\<close>.
\<close>

record ('wid, 'db, 'res) lookup_env =
  lookup_worldId :: 'wid
  lookup_escapeString :: "string \<Rightarrow> string"
  lookup_storeQuery :: "'wid guid_query \<Rightarrow> 'db \<Rightarrow> 'res option"
  getNumber_id :: "'res \<Rightarrow> uint32_t"

definition getGuidByName :: "('wid, 'db, 'res) lookup_env \<Rightarrow> string \<Rightarrow> 'db \<Rightarrow> uint32_t" where
  "getGuidByName env name db =
     (let query = SelectIdByName (lookup_escapeString env name) (lookup_worldId env);
          result = lookup_storeQuery env query db
      in case result of None \<Rightarrow> 0 | Some r \<Rightarrow> getNumber_id env r)"

subsection \<open>Authentication (\<^verbatim>\<open>gameWorldAuthentication\<close>, lines 21--59)\<close>

text \<open>
  The \<^verbatim>\<open>Account\<close> class, over the account object \<open>'acc\<close>. \<open>acc_load\<close>
  and \<open>acc_getAccountPlayers\<close> return a code that \<open>enumFromValue\<close> turns into
  an \<^verbatim>\<open>AccountErrors_t\<close> (\<open>'e\<close>), compared with \<open>AccountErrors_Ok\<close>. The
  players are a map from character name to deletion marker; the subscript
  \<^verbatim>\<open>players[characterName]\<close> of a name that is not a key yields a fresh entry,
  whose marker is \<open>fresh_deletion\<close>. \<open>AUTH_TYPE\<close> is the configured string.
\<close>

record ('acc, 'code, 'e) account_api =
  acc_new :: "string \<Rightarrow> 'acc"
  acc_setProtocolCompat :: "bool \<Rightarrow> 'acc \<Rightarrow> 'acc"
  acc_load :: "'acc \<Rightarrow> 'code \<times> 'acc"
  acc_authenticate :: "'acc \<Rightarrow> bool \<times> 'acc"
  acc_authenticate_password :: "string \<Rightarrow> 'acc \<Rightarrow> bool \<times> 'acc"
  acc_getAccountPlayers :: "'acc \<Rightarrow> ((string \<rightharpoonup> nat) \<times> 'code) \<times> 'acc"
  acc_getID :: "'acc \<Rightarrow> uint32_t"
  acc_getDescriptor :: "'acc \<Rightarrow> string"
  enumFromValue :: "'code \<Rightarrow> 'e"
  AccountErrors_Ok :: 'e
  fresh_deletion :: nat
  AUTH_TYPE :: string

definition deletion_of :: "('acc, 'code, 'e) account_api \<Rightarrow> (string \<rightharpoonup> nat) \<Rightarrow> string \<Rightarrow> nat" where
  "deletion_of api players characterName =
     (case players characterName of None \<Rightarrow> fresh_deletion api | Some deletion \<Rightarrow> deletion)"

text \<open>
  The result is the returned boolean, the value of the reference parameter
  \<^verbatim>\<open>accountId\<close> on return, and the logger's lines.
\<close>

definition gameWorldAuthentication ::
  "('acc, 'code, 'e) account_api \<Rightarrow> string \<Rightarrow> string \<Rightarrow> string \<Rightarrow> uint32_t \<Rightarrow> bool \<Rightarrow>
     log_line list \<Rightarrow> bool \<times> uint32_t \<times> log_line list" where
  "gameWorldAuthentication api accountDescriptor password characterName accountId oldProtocol logged =
     (let account = acc_setProtocolCompat api oldProtocol (acc_new api accountDescriptor);
          (code1, account) = acc_load api account
      in
      if AccountErrors_Ok api \<noteq> enumFromValue api code1 then
        (False, accountId,
         logged @ [(LogError, ''Couldn't load account ['' @ acc_getDescriptor api account @ ''].'')])
      else
      let (authenticated, account) =
            (if AUTH_TYPE api = ''session'' then acc_authenticate api account
             else acc_authenticate_password api password account)
      in
      if \<not> authenticated then (False, accountId, logged)
      else
      let (code2, account) = acc_load api account
      in
      if AccountErrors_Ok api \<noteq> enumFromValue api code2 then
        (False, accountId,
         logged @ [(LogError, ''Failed to load account ['' @ accountDescriptor @ '']'')])
      else
      let ((players, result), account) = acc_getAccountPlayers api account
      in
      if AccountErrors_Ok api \<noteq> enumFromValue api result then
        (False, accountId,
         logged @ [(LogError, ''Failed to load account ['' @ accountDescriptor @ ''] players'')])
      else
      if deletion_of api players characterName \<noteq> 0 then
        (False, accountId,
         logged @ [(LogError, ''Account ['' @ accountDescriptor @ ''] player ['' @ characterName
                                 @ ''] not found or deleted.'')])
      else (True, acc_getID api account, logged))"

subsection \<open>Concrete collaborators for the example runs\<close>

text \<open>
  Loaders over a player object that is the list of the loaders applied to it; the loader
  named by \<open>failing\<close>, if any, throws after touching the object. Every query finds a row.
\<close>

definition recording_loaders :: "loader option \<Rightarrow> (unit, unit, loader list, nat) load_env" where
  "recording_loaders failing =
     \<lparr>with_result = (\<lambda>l p r h. (if Some l = failing then Some (StdException ''bad row'') else None, h @ [l])),
      player_only = (\<lambda>l p h. (if Some l = failing then Some (StdException ''bad row'') else None, h @ [l])),
      load_worldId = 1,
      load_escapeString = (\<lambda>n. n),
      load_storeQuery = (\<lambda>q h. Some ())\<rparr>"

definition fresh_load :: "loader list load_state" where
  "fresh_load = \<lparr>objects = [], invoked = [], warnings = []\<rparr>"

text \<open>
  Savers over a store that is the list of the rows written, one row per saver call; the
  saver named by \<open>failing\<close>, if any, returns \<open>False\<close> after writing its row. The
  player is its name.
\<close>

definition row_savers :: "saver option \<Rightarrow> (string, saver list) save_env" where
  "row_savers failing =
     \<lparr>save_step = (\<lambda>s p db. (Some s \<noteq> failing, db @ [s])), getName = (\<lambda>p. p)\<rparr>"

definition fresh_save :: "saver list save_state" where
  "fresh_save = \<lparr>store = [], saved = [], errors = []\<rparr>"

text \<open>
  An account service with one account, whose characters are \<open>players\<close>; codes are
  numbers with \<open>0\<close> for \<^verbatim>\<open>AccountErrors_t::Ok\<close>, and the password is checked.
\<close>

definition one_account :: "(string \<rightharpoonup> nat) \<Rightarrow> (unit, nat, nat) account_api" where
  "one_account players =
     \<lparr>acc_new = (\<lambda>d. ()),
      acc_setProtocolCompat = (\<lambda>b a. a),
      acc_load = (\<lambda>a. (0, a)),
      acc_authenticate = (\<lambda>a. (True, a)),
      acc_authenticate_password = (\<lambda>pw a. (pw = ''secret'', a)),
      acc_getAccountPlayers = (\<lambda>a. ((players, 0), a)),
      acc_getID = (\<lambda>a. 77),
      acc_getDescriptor = (\<lambda>a. ''alice''),
      enumFromValue = (\<lambda>c. c),
      AccountErrors_Ok = 0,
      fresh_deletion = 0,
      AUTH_TYPE = ''password''\<rparr>"

text \<open>
  A database that keeps the statements executed on it, in order, in world 1; and the
  state of a process that tracks nobody, with all counters at zero.
\<close>

definition world_one :: "(nat, nat presence_query list) online_env" where
  "world_one = \<lparr>worldId = 1, executeQuery = (\<lambda>q executed. (True, executed @ [q]))\<rparr>"

definition nobody_online :: "nat presence_query list online_state" where
  "nobody_online = \<lparr>updateOnline = Map.empty, metrics = (\<lambda>_. 0), database = []\<rparr>"

text \<open>
  A \<^verbatim>\<open>players\<close> table as a list of (id, name, world) rows, read from world 1: a
  query yields its matching rows, or no result when there is none, and the id is read
  from the first row.
\<close>

fun players_table ::
  "'wid guid_query \<Rightarrow> (uint32_t \<times> string \<times> 'wid) list \<Rightarrow> (uint32_t \<times> string \<times> 'wid) list option" where
  "players_table (SelectIdByName n w) rows =
     (case filter (\<lambda>(i, n', w'). n' = n \<and> w' = w) rows of
        [] \<Rightarrow> None
      | found \<Rightarrow> Some found)"

definition players_db :: "(nat, (uint32_t \<times> string \<times> nat) list, (uint32_t \<times> string \<times> nat) list) lookup_env" where
  "players_db =
     \<lparr>lookup_worldId = 1, lookup_escapeString = (\<lambda>n. n), lookup_storeQuery = players_table,
      getNumber_id = (\<lambda>found. case found of [] \<Rightarrow> 0 | (i, n, w) # others \<Rightarrow> i)\<rparr>"

section \<open>Properties of the load pipeline\<close>

lemma loadPlayer_try_run_minimal:
  "loadPlayer_try env p r True = run_loaders env p r minimal_order"
  by (simp add: loadPlayer_try_def minimal_order_def call_loader_def)

lemma loadPlayer_try_run_full:
  "loadPlayer_try env p r False = run_loaders env p r loader_order"
  by (simp add: loadPlayer_try_def loader_order_def minimal_order_def final_block_def call_loader_def)

lemma call_loader_effect:
  "invoked (snd (call_loader env p r l w)) = invoked w @ [l]"
  "warnings (snd (call_loader env p r l w)) = warnings w"
  by (simp_all add: call_loader_def call_with_result_def call_player_only_def split: prod.splits)

lemma run_loaders_append:
  "run_loaders env p r (xs @ ys) w =
     (case run_loaders env p r xs w of
        (Inl e, w') \<Rightarrow> (Inl e, w')
      | (Inr b, w') \<Rightarrow> run_loaders env p r ys w')"
  by (induction xs arbitrary: w)
     (auto simp add: return_value_def and_then_def split: prod.splits option.splits sum.splits)

lemma run_loaders_calls:
  "run_loaders env p r ls w = (x, w') \<Longrightarrow>
     \<exists>tr. invoked w' = invoked w @ tr \<and> prefix tr ls \<and> (ls \<noteq> [] \<longrightarrow> tr \<noteq> [])
          \<and> (\<forall>b. x = Inr b \<longrightarrow> b \<and> tr = ls) \<and> warnings w' = warnings w"
proof (induction ls arbitrary: w)
  case Nil
  then show ?case by (auto simp add: return_value_def)
next
  case (Cons l ls)
  obtain t w1 where c: "call_loader env p r l w = (t, w1)" by force
  have i1: "invoked w1 = invoked w @ [l]" "warnings w1 = warnings w"
    using call_loader_effect [of env p r l w] c by simp_all
  show ?case
  proof (cases t)
    case (Some e)
    with Cons.prems c have "w' = w1" by (simp add: and_then_def)
    with i1 Some Cons.prems c show ?thesis
      by (intro exI [of _ "[l]"]) (auto simp add: and_then_def)
  next
    case None
    with Cons.prems c have "run_loaders env p r ls w1 = (x, w')" by (simp add: and_then_def)
    from Cons.IH [OF this] obtain tr where
      "invoked w' = invoked w1 @ tr" "prefix tr ls" "\<forall>b. x = Inr b \<longrightarrow> b \<and> tr = ls" "warnings w' = warnings w1"
      by blast
    with i1 show ?thesis
      by (intro exI [of _ "l # tr"]) auto
  qed
qed

lemma calls_during_append: "invoked w' = invoked w @ tr \<Longrightarrow> calls_during w w' = tr"
  by (simp add: calls_during_def)

lemma loadPlayer_catch_effect:
  "invoked (snd (loadPlayer_catch x)) = invoked (snd x)"
  "objects (snd (loadPlayer_catch x)) = objects (snd x)"
  "fst (loadPlayer_catch x) \<longleftrightarrow> fst x = Inr True"
  by (cases x rule: loadPlayer_catch.cases; simp add: warn_def)+

lemma runs_before_prefix:
  assumes "prefix tr (ys @ b # zs)" and "b \<notin> set ys" and "a \<in> set ys"
  shows "runs_before a b tr"
proof (cases "b \<in> set tr")
  case False
  then show ?thesis by (simp add: runs_before_def)
next
  case True
  from assms(1) consider "prefix tr ys" | us where "tr = ys @ us"
    by (auto simp add: prefix_append)
  then show ?thesis
  proof cases
    case 1
    then have "set tr \<subseteq> set ys" by (rule set_mono_prefix)
    with True assms(2) show ?thesis by blast
  next
    case 2
    have "takeWhile (\<lambda>c. c \<noteq> b) (ys @ us) = ys @ takeWhile (\<lambda>c. c \<noteq> b) us"
      using assms(2) by (intro takeWhile_append2) auto
    with 2 assms(3) show ?thesis
      by (simp add: runs_before_def)
  qed
qed

lemma first_runs_before:
  assumes "prefix tr (a # xs)" and "l \<noteq> a"
  shows "runs_before a l tr"
proof (cases "l \<in> set tr")
  case False
  then show ?thesis by (simp add: runs_before_def)
next
  case True
  then obtain tr' where "tr = a # tr'"
    using assms(1) by (cases tr) auto
  with assms(2) show ?thesis by (simp add: runs_before_def)
qed

lemma loadPlayer_calls:
  assumes "loadPlayer env (Some p) (Some r) minimal w = (ok, w')"
  shows "\<exists>tr. invoked w' = invoked w @ tr \<and> tr \<noteq> []
           \<and> prefix tr (if minimal then minimal_order else loader_order)
           \<and> (ok \<longrightarrow> tr = (if minimal then minimal_order else loader_order))"
proof -
  let ?ls = "if minimal then minimal_order else loader_order"
  obtain x w1 where run: "run_loaders env p r ?ls w = (x, w1)" by force
  have lp: "loadPlayer env (Some p) (Some r) minimal w = loadPlayer_catch (x, w1)"
    using run by (cases minimal) (simp_all add: loadPlayer_def loadPlayer_try_run_minimal loadPlayer_try_run_full)
  have ne: "?ls \<noteq> []" by (simp add: minimal_order_def loader_order_def)
  from run_loaders_calls [OF run] ne obtain tr where
    tr: "invoked w1 = invoked w @ tr" "prefix tr ?ls" "tr \<noteq> []" "\<forall>b. x = Inr b \<longrightarrow> b \<and> tr = ?ls"
    by blast
  have c: "loadPlayer_catch (x, w1) = (ok, w')"
    using lp assms by simp
  have "invoked w' = invoked w1"
    using loadPlayer_catch_effect(1) [of "(x, w1)"] by (simp add: c)
  moreover have "ok \<longrightarrow> x = Inr True"
    using loadPlayer_catch_effect(3) [of "(x, w1)"] by (simp add: c)
  ultimately show ?thesis using tr by (intro exI [of _ tr]) auto
qed

lemma loadPlayer_order_of_calls:
  assumes "player \<noteq> None" and "result \<noteq> None"
      and "loadPlayer env player result minimal w = (ok, w')"
  shows "invoked w' = invoked w @ calls_during w w'
       \<and> prefix (calls_during w w') loader_order
       \<and> (ok \<longrightarrow> calls_during w w' = (if minimal then minimal_order else loader_order))
       \<and> calls_during w w' \<noteq> [] \<and> hd (calls_during w w') = LoadPlayerFirst
       \<and> (\<forall>l \<in> set (calls_during w w'). l \<noteq> LoadPlayerFirst \<longrightarrow>
            runs_before LoadPlayerFirst l (calls_during w w'))
       \<and> (\<forall>l \<in> set [LoadPlayerStoreInbox, LoadPlayerDepotItems, LoadRewardItems, LoadPlayerInboxItems].
            runs_before LoadPlayerInventoryItems l (calls_during w w'))"
proof -
  from assms obtain p r where pr: "player = Some p" "result = Some r" by auto
  from loadPlayer_calls [of env p r minimal w ok w'] assms(3) pr obtain tr where
    tr: "invoked w' = invoked w @ tr" "tr \<noteq> []"
        "prefix tr (if minimal then minimal_order else loader_order)"
        "ok \<longrightarrow> tr = (if minimal then minimal_order else loader_order)"
    by blast
  have cd: "calls_during w w' = tr" using tr(1) by (rule calls_during_append)
  have "prefix minimal_order loader_order" by (simp add: loader_order_def)
  with tr(3) have pre: "prefix tr loader_order"
    by (cases minimal) (auto intro: prefix_order.trans)
  then have pre1: "prefix tr (LoadPlayerFirst # tl loader_order)"
    by (simp add: loader_order_def minimal_order_def)
  with tr(2) have hd: "hd tr = LoadPlayerFirst" by (cases tr) auto
  have first: "\<forall>l \<in> set tr. l \<noteq> LoadPlayerFirst \<longrightarrow> runs_before LoadPlayerFirst l tr"
    using first_runs_before [OF pre1] by blast
  have inv: "\<forall>l \<in> set [LoadPlayerStoreInbox, LoadPlayerDepotItems, LoadRewardItems, LoadPlayerInboxItems].
               runs_before LoadPlayerInventoryItems l tr"
  proof -
    have "runs_before LoadPlayerInventoryItems LoadPlayerStoreInbox tr"
      using pre
      by (intro runs_before_prefix [where ys = "take 12 loader_order" and zs = "drop 13 loader_order"])
         (simp_all add: loader_order_def minimal_order_def final_block_def)
    moreover have "runs_before LoadPlayerInventoryItems LoadPlayerDepotItems tr"
      using pre
      by (intro runs_before_prefix [where ys = "take 13 loader_order" and zs = "drop 14 loader_order"])
         (simp_all add: loader_order_def minimal_order_def final_block_def)
    moreover have "runs_before LoadPlayerInventoryItems LoadRewardItems tr"
      using pre
      by (intro runs_before_prefix [where ys = "take 14 loader_order" and zs = "drop 15 loader_order"])
         (simp_all add: loader_order_def minimal_order_def final_block_def)
    moreover have "runs_before LoadPlayerInventoryItems LoadPlayerInboxItems tr"
      using pre
      by (intro runs_before_prefix [where ys = "take 15 loader_order" and zs = "drop 16 loader_order"])
         (simp_all add: loader_order_def minimal_order_def final_block_def)
    ultimately show ?thesis by simp
  qed
  show ?thesis
    unfolding cd
  proof (intro conjI)
    show "invoked w' = invoked w @ tr" by (rule tr(1))
    show "prefix tr loader_order" by (rule pre)
    show "ok \<longrightarrow> tr = (if minimal then minimal_order else loader_order)" by (rule tr(4))
    show "tr \<noteq> []" by (rule tr(2))
    show "hd tr = LoadPlayerFirst" by (rule hd)
    show "\<forall>l \<in> set tr. l \<noteq> LoadPlayerFirst \<longrightarrow> runs_before LoadPlayerFirst l tr" by (rule first)
    show "\<forall>l \<in> set [LoadPlayerStoreInbox, LoadPlayerDepotItems, LoadRewardItems, LoadPlayerInboxItems].
               runs_before LoadPlayerInventoryItems l tr" by (rule inv)
  qed
qed

lemma recording_minimal_run:
  "loadPlayer (recording_loaders None) (Some ()) (Some ()) True fresh_load =
     (True, \<lparr>objects = minimal_order, invoked = minimal_order, warnings = []\<rparr>)"
  by (simp add: loadPlayer_def loadPlayer_try_def recording_loaders_def fresh_load_def
      and_then_def call_with_result_def call_player_only_def return_value_def minimal_order_def)

lemma recording_full_run:
  "loadPlayer (recording_loaders None) (Some ()) (Some ()) False fresh_load =
     (True, \<lparr>objects = loader_order, invoked = loader_order, warnings = []\<rparr>)"
  by (simp add: loadPlayer_def loadPlayer_try_def recording_loaders_def fresh_load_def
      and_then_def call_with_result_def call_player_only_def return_value_def minimal_order_def
      loader_order_def final_block_def)

lemma recording_failing_run:
  "loadPlayer (recording_loaders (Some LoadPlayerDepotItems)) (Some ()) (Some ()) False fresh_load =
     (False, \<lparr>objects = take 14 loader_order, invoked = take 14 loader_order,
        warnings = [(LogWarn, ''[loadPlayer] Error while load player: bad row'')]\<rparr>)"
  by (simp add: loadPlayer_def loadPlayer_try_def recording_loaders_def fresh_load_def
      and_then_def call_with_result_def call_player_only_def return_value_def minimal_order_def
      loader_order_def final_block_def warn_def)

lemma loadPlayer_null:
  assumes "result = None \<or> player = None"
  shows "loadPlayer env player result minimal w =
           (False, warn (''[loadPlayer] - '' @ (if result = None then ''Result'' else ''Player'') @ '' is nullptr'') w)"
  using assms by (auto simp add: loadPlayer_def)

lemma calls_during_trans:
  assumes "invoked w1 = invoked w @ a" and "invoked w2 = invoked w1 @ b"
  shows "calls_during w w1 = a" "calls_during w1 w2 = b" "calls_during w w2 = a @ b"
  using assms by (simp_all add: calls_during_def)

lemma minimal_full_calls:
  assumes m: "loadPlayer env player result True w = (okm, w_min)"
      and f: "loadPlayer env player result False w = (okf, w_full)"
  shows "prefix (calls_during w w_min) (calls_during w w_full)
       \<and> prefix (calls_during w w_min) minimal_order
       \<and> calls_during w w_full = calls_during w w_min @ calls_during w_min w_full
       \<and> prefix (calls_during w_min w_full) final_block
       \<and> (okf \<longrightarrow> okm \<and> calls_during w_min w_full = final_block)
       \<and> (okm \<longrightarrow> calls_during w w_min = minimal_order
                \<and> loadPlayer env player result False w
                    = loadPlayer_catch (run_loaders env (the player) (the result) final_block w_min))
       \<and> (\<not> okm \<longrightarrow> (okf, w_full) = (okm, w_min))"
proof (cases "result = None \<or> player = None")
  case True
  let ?n = "warn (''[loadPlayer] - '' @ (if result = None then ''Result'' else ''Player'') @ '' is nullptr'') w"
  have "(okm, w_min) = (False, ?n)"
    using loadPlayer_null [OF True, of env True w] m by simp
  moreover have "(okf, w_full) = (False, ?n)"
    using loadPlayer_null [OF True, of env False w] f by simp
  ultimately have "\<not> okm" "\<not> okf" "w_full = w_min" "invoked w_min = invoked w"
    by (simp_all add: warn_def)
  then show ?thesis by (simp add: calls_during_def)
next
  case False
  then obtain p r where pr: "player = Some p" "result = Some r" by auto
  obtain x w1 where run: "run_loaders env p r minimal_order w = (x, w1)" by force
  from run_loaders_calls [OF run] obtain tr where
    tr: "invoked w1 = invoked w @ tr" "prefix tr minimal_order" "\<forall>b. x = Inr b \<longrightarrow> b \<and> tr = minimal_order"
    by blast
  have mm: "loadPlayer_catch (x, w1) = (okm, w_min)"
    using m run by (simp add: pr loadPlayer_def loadPlayer_try_run_minimal)
  have full: "loadPlayer env player result False w =
      loadPlayer_catch (case x of Inl e \<Rightarrow> (Inl e, w1) | Inr b \<Rightarrow> run_loaders env p r final_block w1)"
    using run
    by (simp add: pr loadPlayer_def loadPlayer_try_run_full loader_order_def run_loaders_append)
  have im: "invoked w_min = invoked w1"
    using loadPlayer_catch_effect(1) [of "(x, w1)"] by (simp add: mm)
  have okm_iff: "okm \<longleftrightarrow> x = Inr True"
    using loadPlayer_catch_effect(3) [of "(x, w1)"] unfolding mm by simp
  show ?thesis
  proof (cases x)
    case (Inl e)
    with full mm f have same: "(okf, w_full) = (okm, w_min)" by simp
    have "\<not> okm" using okm_iff Inl by simp
    with same tr im show ?thesis
      by (simp add: calls_during_def)
  next
    case (Inr b)
    with tr have b: "b" and trm: "tr = minimal_order" by simp_all
    from Inr b mm have okm: "okm" and w_min: "w_min = w1" by simp_all
    obtain y w2 where run2: "run_loaders env p r final_block w1 = (y, w2)" by force
    from run_loaders_calls [OF run2] obtain tr2 where
      tr2: "invoked w2 = invoked w1 @ tr2" "prefix tr2 final_block" "\<forall>b. y = Inr b \<longrightarrow> b \<and> tr2 = final_block"
      by blast
    have ff: "loadPlayer_catch (y, w2) = (okf, w_full)"
      using full f Inr run2 by simp
    have "invoked w_full = invoked w2"
      using loadPlayer_catch_effect(1) [of "(y, w2)"] by (simp add: ff)
    with tr2 w_min have i2: "invoked w_full = invoked w_min @ tr2" by simp
    have i1: "invoked w_min = invoked w @ tr" using tr(1) w_min by simp
    note cd = calls_during_trans [OF i1 i2]
    have "okf \<longrightarrow> y = Inr True"
      using loadPlayer_catch_effect(3) [of "(y, w2)"] unfolding ff by simp
    with tr2 have fin: "okf \<longrightarrow> tr2 = final_block" by simp
    have cont: "loadPlayer env player result False w
                    = loadPlayer_catch (run_loaders env (the player) (the result) final_block w_min)"
      using full Inr by (simp add: pr w_min)
    show ?thesis
      unfolding cd
    proof (intro conjI)
      show "prefix tr (tr @ tr2)" by simp
      show "prefix tr minimal_order" by (rule tr(2))
      show "tr @ tr2 = tr @ tr2" by simp
      show "prefix tr2 final_block" by (rule tr2(2))
      show "okf \<longrightarrow> okm \<and> tr2 = final_block" using fin okm by simp
      show "okm \<longrightarrow> tr = minimal_order \<and> loadPlayer env player result False w
                    = loadPlayer_catch (run_loaders env (the player) (the result) final_block w_min)"
        using trm cont by simp
      show "\<not> okm \<longrightarrow> (okf, w_full) = (okm, w_min)" using okm by simp
    qed
  qed
qed

lemma call_loader_objects:
  "call_loader env p r l w =
     (fst (loader_call env p r l (objects w)),
      w\<lparr>objects := snd (loader_call env p r l (objects w)), invoked := invoked w @ [l]\<rparr>)"
  by (simp add: call_loader_def loader_call_def call_with_result_def call_player_only_def
      split: prod.splits)

lemma run_loaders_effect:
  "run_loaders env p r ls w = (x, w') \<Longrightarrow>
     loaders_effect env p r ls (objects w)
       = (calls_during w w', (case x of Inl e \<Rightarrow> Some e | Inr b \<Rightarrow> None), objects w')
     \<and> invoked w' = invoked w @ calls_during w w'"
proof (induction ls arbitrary: w)
  case Nil
  then show ?case by (auto simp add: return_value_def calls_during_def)
next
  case (Cons l ls)
  obtain t h1 where lc: "loader_call env p r l (objects w) = (t, h1)" by force
  let ?w1 = "w\<lparr>objects := h1, invoked := invoked w @ [l]\<rparr>"
  have cl: "call_loader env p r l w = (t, ?w1)"
    by (simp add: call_loader_objects lc)
  show ?case
  proof (cases t)
    case (Some e)
    with Cons.prems cl have "x = Inl e" "w' = ?w1" by (simp_all add: and_then_def)
    with lc Some show ?thesis by (simp add: calls_during_def)
  next
    case None
    with Cons.prems cl have "run_loaders env p r ls ?w1 = (x, w')" by (simp add: and_then_def)
    from Cons.IH [OF this] have
      ih: "loaders_effect env p r ls h1
             = (calls_during ?w1 w', (case x of Inl e \<Rightarrow> Some e | Inr b \<Rightarrow> None), objects w')"
          "invoked w' = (invoked w @ [l]) @ calls_during ?w1 w'"
      by simp_all
    have "invoked w' = invoked w @ (l # calls_during ?w1 w')"
      using ih(2) by simp
    then have cd: "calls_during w w' = l # calls_during ?w1 w'"
      by (rule calls_during_append)
    have "invoked w' = invoked w @ calls_during w w'"
      using ih(2) by (simp add: cd)
    moreover have "loaders_effect env p r (l # ls) (objects w)
       = (calls_during w w', (case x of Inl e \<Rightarrow> Some e | Inr b \<Rightarrow> None), objects w')"
      by (simp add: lc None ih(1) cd)
    ultimately show ?thesis by simp
  qed
qed

lemma loaders_effect_fold:
  "loaders_effect env p r ls h = (applied, thrown, h') \<Longrightarrow>
     h' = foldl (\<lambda>h l. snd (loader_call env p r l h)) h applied"
  by (induction ls arbitrary: h applied)
     (auto split: prod.splits option.splits)

lemma catch_run_effect:
  assumes "loadPlayer_catch (run_loaders env p r ls w) = (ok, w')"
  shows "fst (loaders_effect env p r ls (objects w)) = calls_during w w'
       \<and> snd (snd (loaders_effect env p r ls (objects w))) = objects w'
       \<and> (ok \<longleftrightarrow> fst (snd (loaders_effect env p r ls (objects w))) = None)
       \<and> objects w' = foldl (\<lambda>h l. snd (loader_call env p r l h)) (objects w) (calls_during w w')"
proof -
  obtain x w1 where run: "run_loaders env p r ls w = (x, w1)" by force
  from run_loaders_effect [OF run] have
    eff: "loaders_effect env p r ls (objects w)
            = (calls_during w w1, (case x of Inl e \<Rightarrow> Some e | Inr b \<Rightarrow> None), objects w1)"
    by simp
  have c: "loadPlayer_catch (x, w1) = (ok, w')" using assms run by simp
  have i: "invoked w' = invoked w1" and ob: "objects w' = objects w1"
    using loadPlayer_catch_effect(1,2) [of "(x, w1)"] by (simp_all add: c)
  have okx: "ok \<longleftrightarrow> x = Inr True"
    using loadPlayer_catch_effect(3) [of "(x, w1)"] unfolding c by simp
  from run_loaders_calls [OF run] have "\<forall>b. x = Inr b \<longrightarrow> b" by blast
  then have "(case x of Inl e \<Rightarrow> Some e | Inr b \<Rightarrow> None) = None \<longleftrightarrow> x = Inr True"
    by (cases x) auto
  with okx have ok: "ok \<longleftrightarrow> (case x of Inl e \<Rightarrow> Some e | Inr b \<Rightarrow> None) = None" by simp
  have cd: "calls_during w w' = calls_during w w1" by (simp add: calls_during_def i)
  from loaders_effect_fold [OF eff]
  have "objects w1 = foldl (\<lambda>h l. snd (loader_call env p r l h)) (objects w) (calls_during w w1)" .
  with eff ok cd ob show ?thesis by simp
qed

lemma loadPlayer_is_catch_run:
  "loadPlayer env (Some p) (Some r) minimal w =
     loadPlayer_catch (run_loaders env p r (if minimal then minimal_order else loader_order) w)"
  by (cases minimal) (simp_all add: loadPlayer_def loadPlayer_try_run_minimal loadPlayer_try_run_full)


text \<open>
  Claim C4. A call of \<^const>\<open>loadPlayer\<close> with a player and a result (one that reaches
  the step sequence) calls the loaders in the order of \<^const>\<open>loader_order\<close>: the calls
  it adds are a non-empty prefix of that list, and the whole list of its mode when it
  returns \<open>True\<close>. So \<^const>\<open>LoadPlayerFirst\<close>, the base identity and capacity step,
  is the first call and precedes every other loader that runs, the item-container
  loaders among them; and the store inbox, depot, reward and inbox loaders, when they
  run, run after \<^const>\<open>LoadPlayerInventoryItems\<close>. The calls are the collaborators
  of the environment at work: the loaders called, the objects the call ends with and
  its result are those of applying \<open>with_result\<close> and \<open>player_only\<close> of the
  environment down the list of the mode, from the objects the call started with, up to
  the first that throws; the call returns \<open>True\<close> exactly when none throws.
\<close>

theorem loadPlayer_fixed_order:
  assumes "player \<noteq> None" and "result \<noteq> None"
      and "loadPlayer env player result minimal w = (ok, w')"
  shows "(invoked w' = invoked w @ calls_during w w'
       \<and> prefix (calls_during w w') loader_order
       \<and> (ok \<longrightarrow> calls_during w w' = (if minimal then minimal_order else loader_order))
       \<and> calls_during w w' \<noteq> [] \<and> hd (calls_during w w') = LoadPlayerFirst
       \<and> (\<forall>l \<in> set (calls_during w w'). l \<noteq> LoadPlayerFirst \<longrightarrow>
            runs_before LoadPlayerFirst l (calls_during w w'))
       \<and> (\<forall>l \<in> set [LoadPlayerStoreInbox, LoadPlayerDepotItems, LoadRewardItems, LoadPlayerInboxItems].
            runs_before LoadPlayerInventoryItems l (calls_during w w')))
     \<and> (fst (loaders_effect env (the player) (the result)
                (if minimal then minimal_order else loader_order) (objects w)) = calls_during w w'
       \<and> snd (snd (loaders_effect env (the player) (the result)
                (if minimal then minimal_order else loader_order) (objects w))) = objects w'
       \<and> (ok \<longleftrightarrow> fst (snd (loaders_effect env (the player) (the result)
                (if minimal then minimal_order else loader_order) (objects w))) = None)
       \<and> objects w' = foldl (\<lambda>h l. snd (loader_call env (the player) (the result) l h))
                         (objects w) (calls_during w w'))"
proof (rule conjI)
  show "invoked w' = invoked w @ calls_during w w'
       \<and> prefix (calls_during w w') loader_order
       \<and> (ok \<longrightarrow> calls_during w w' = (if minimal then minimal_order else loader_order))
       \<and> calls_during w w' \<noteq> [] \<and> hd (calls_during w w') = LoadPlayerFirst
       \<and> (\<forall>l \<in> set (calls_during w w'). l \<noteq> LoadPlayerFirst \<longrightarrow>
            runs_before LoadPlayerFirst l (calls_during w w'))
       \<and> (\<forall>l \<in> set [LoadPlayerStoreInbox, LoadPlayerDepotItems, LoadRewardItems, LoadPlayerInboxItems].
            runs_before LoadPlayerInventoryItems l (calls_during w w'))"
    by (rule loadPlayer_order_of_calls [OF assms])
next
  from assms(1,2) obtain p r where pr: "player = Some p" "result = Some r" by auto
  have "loadPlayer_catch (run_loaders env (the player) (the result)
          (if minimal then minimal_order else loader_order) w) = (ok, w')"
    using loadPlayer_is_catch_run [of env p r minimal w] assms(3) by (simp add: pr)
  then show "fst (loaders_effect env (the player) (the result)
                (if minimal then minimal_order else loader_order) (objects w)) = calls_during w w'
       \<and> snd (snd (loaders_effect env (the player) (the result)
                (if minimal then minimal_order else loader_order) (objects w))) = objects w'
       \<and> (ok \<longleftrightarrow> fst (snd (loaders_effect env (the player) (the result)
                (if minimal then minimal_order else loader_order) (objects w))) = None)
       \<and> objects w' = foldl (\<lambda>h l. snd (loader_call env (the player) (the result) l h))
                         (objects w) (calls_during w w')"
    by (rule catch_run_effect)
qed

theorem loadPlayer_fixed_order_witness:
  "calls_during fresh_load
     (snd (loadPlayer (recording_loaders (Some LoadPlayerDepotItems)) (Some ()) (Some ()) False fresh_load))
     = take 14 loader_order
   \<and> objects
     (snd (loadPlayer (recording_loaders (Some LoadPlayerDepotItems)) (Some ()) (Some ()) False fresh_load))
     = foldl (\<lambda>h l. snd (loader_call (recording_loaders (Some LoadPlayerDepotItems)) () () l h))
         [] (take 14 loader_order)
   \<and> runs_before LoadPlayerInventoryItems LoadPlayerDepotItems (take 14 loader_order)
   \<and> runs_before LoadPlayerFirst LoadPlayerStoreInbox (take 14 loader_order)"
proof -
  let ?w' = "\<lparr>objects = take 14 loader_order, invoked = take 14 loader_order,
        warnings = [(LogWarn, ''[loadPlayer] Error while load player: bad row'')]\<rparr>"
  have run: "loadPlayer (recording_loaders (Some LoadPlayerDepotItems)) (Some ()) (Some ()) False fresh_load
               = (False, ?w')"
    by (rule recording_failing_run)
  have cd: "calls_during fresh_load ?w' = take 14 loader_order"
    by (simp add: calls_during_def fresh_load_def)
  have some: "Some () \<noteq> None" by simp
  note inst = loadPlayer_fixed_order [OF some some run]
  from inst [THEN conjunct1]
  have "(\<forall>l \<in> set (take 14 loader_order). l \<noteq> LoadPlayerFirst \<longrightarrow>
            runs_before LoadPlayerFirst l (take 14 loader_order))
       \<and> (\<forall>l \<in> set [LoadPlayerStoreInbox, LoadPlayerDepotItems, LoadRewardItems, LoadPlayerInboxItems].
            runs_before LoadPlayerInventoryItems l (take 14 loader_order))"
    unfolding cd by blast
  moreover have "LoadPlayerStoreInbox \<in> set (take 14 loader_order)"
    by (simp add: loader_order_def minimal_order_def)
  moreover from inst [THEN conjunct2]
  have "objects ?w' = foldl (\<lambda>h l. snd (loader_call (recording_loaders (Some LoadPlayerDepotItems)) () () l h))
         (objects fresh_load) (take 14 loader_order)"
    unfolding cd option.sel by (elim conjE)
  moreover have "objects fresh_load = []" by (simp add: fresh_load_def)
  ultimately show ?thesis using run cd by simp
qed

text \<open>
  Claim C3. From the same state, with the same player and cursor, the calls of a load with
  \<^verbatim>\<open>disableIrrelevantInfo\<close> set (Minimal) are a prefix of the calls of a load
  without it (Full). What Full calls beyond Minimal is a prefix of
  \<^const>\<open>final_block\<close> (forge history, bosstiary, the two system passes), all of it
  when Full returns \<open>True\<close>. When Minimal returns \<open>True\<close> it has called exactly
  \<^const>\<open>minimal_order\<close>, and Full is the final block run from the state Minimal ends
  in: the steps before the block run identically. When Minimal fails, Full fails in the
  same state. The calls are the collaborators of the environment at work: in each mode
  the loaders called, the objects reached and the result are those of applying the
  environment's loaders down the list of the mode up to the first that throws, and
  after a Minimal that returns \<open>True\<close> the objects of Full are those of applying the
  final block to the objects of Minimal. Without a player or a result neither mode
  touches the objects.
\<close>

theorem minimal_prefix_of_full:
  assumes m: "loadPlayer env player result True w = (okm, w_min)"
      and f: "loadPlayer env player result False w = (okf, w_full)"
  shows "(prefix (calls_during w w_min) (calls_during w w_full)
       \<and> prefix (calls_during w w_min) minimal_order
       \<and> calls_during w w_full = calls_during w w_min @ calls_during w_min w_full
       \<and> prefix (calls_during w_min w_full) final_block
       \<and> (okf \<longrightarrow> okm \<and> calls_during w_min w_full = final_block)
       \<and> (okm \<longrightarrow> calls_during w w_min = minimal_order
                \<and> loadPlayer env player result False w
                    = loadPlayer_catch (run_loaders env (the player) (the result) final_block w_min))
       \<and> (\<not> okm \<longrightarrow> (okf, w_full) = (okm, w_min)))
     \<and> (player \<noteq> None \<and> result \<noteq> None \<longrightarrow>
          (fst (loaders_effect env (the player) (the result) minimal_order (objects w)) = calls_during w w_min
           \<and> snd (snd (loaders_effect env (the player) (the result) minimal_order (objects w))) = objects w_min
           \<and> (okm \<longleftrightarrow> fst (snd (loaders_effect env (the player) (the result) minimal_order (objects w))) = None)
           \<and> objects w_min = foldl (\<lambda>h l. snd (loader_call env (the player) (the result) l h))
                               (objects w) (calls_during w w_min))
        \<and> (fst (loaders_effect env (the player) (the result) loader_order (objects w)) = calls_during w w_full
           \<and> snd (snd (loaders_effect env (the player) (the result) loader_order (objects w))) = objects w_full
           \<and> (okf \<longleftrightarrow> fst (snd (loaders_effect env (the player) (the result) loader_order (objects w))) = None)
           \<and> objects w_full = foldl (\<lambda>h l. snd (loader_call env (the player) (the result) l h))
                               (objects w) (calls_during w w_full)))
     \<and> (okm \<longrightarrow>
          fst (loaders_effect env (the player) (the result) final_block (objects w_min)) = calls_during w_min w_full
           \<and> snd (snd (loaders_effect env (the player) (the result) final_block (objects w_min))) = objects w_full
           \<and> (okf \<longleftrightarrow> fst (snd (loaders_effect env (the player) (the result) final_block (objects w_min))) = None)
           \<and> objects w_full = foldl (\<lambda>h l. snd (loader_call env (the player) (the result) l h))
                               (objects w_min) (calls_during w_min w_full))
     \<and> (result = None \<or> player = None \<longrightarrow> objects w_min = objects w \<and> objects w_full = objects w)"
proof (intro conjI impI)
  note old = minimal_full_calls [OF m f]
  show "prefix (calls_during w w_min) (calls_during w w_full)"
    "prefix (calls_during w w_min) minimal_order"
    "calls_during w w_full = calls_during w w_min @ calls_during w_min w_full"
    "prefix (calls_during w_min w_full) final_block"
    using old by simp_all
  show "okm" if "okf" using old that by simp
  show "calls_during w_min w_full = final_block" if "okf" using old that by simp
  show "calls_during w w_min = minimal_order" if "okm" using old that by simp
  show "loadPlayer env player result False w
          = loadPlayer_catch (run_loaders env (the player) (the result) final_block w_min)" if "okm"
    using old that by simp
  show "(okf, w_full) = (okm, w_min)" if "\<not> okm" using old that by simp
next
  assume pr: "player \<noteq> None \<and> result \<noteq> None"
  then obtain p r where pr': "player = Some p" "result = Some r" by auto
  have cm: "loadPlayer_catch (run_loaders env (the player) (the result) minimal_order w) = (okm, w_min)"
    using loadPlayer_is_catch_run [of env p r True w] m by (simp add: pr')
  have cf: "loadPlayer_catch (run_loaders env (the player) (the result) loader_order w) = (okf, w_full)"
    using loadPlayer_is_catch_run [of env p r False w] f by (simp add: pr')
  note em = catch_run_effect [OF cm] and ef = catch_run_effect [OF cf]
  show "fst (loaders_effect env (the player) (the result) minimal_order (objects w)) = calls_during w w_min"
    "snd (snd (loaders_effect env (the player) (the result) minimal_order (objects w))) = objects w_min"
    "okm \<longleftrightarrow> fst (snd (loaders_effect env (the player) (the result) minimal_order (objects w))) = None"
    "objects w_min = foldl (\<lambda>h l. snd (loader_call env (the player) (the result) l h))
                               (objects w) (calls_during w w_min)"
    using em by blast+
  show "fst (loaders_effect env (the player) (the result) loader_order (objects w)) = calls_during w w_full"
    "snd (snd (loaders_effect env (the player) (the result) loader_order (objects w))) = objects w_full"
    "okf \<longleftrightarrow> fst (snd (loaders_effect env (the player) (the result) loader_order (objects w))) = None"
    "objects w_full = foldl (\<lambda>h l. snd (loader_call env (the player) (the result) l h))
                               (objects w) (calls_during w w_full)"
    using ef by blast+
next
  assume okm: "okm"
  have "loadPlayer env player result False w
          = loadPlayer_catch (run_loaders env (the player) (the result) final_block w_min)"
    using minimal_full_calls [OF m f] okm by simp
  with f have "loadPlayer_catch (run_loaders env (the player) (the result) final_block w_min) = (okf, w_full)"
    by simp
  note e = catch_run_effect [OF this]
  show "fst (loaders_effect env (the player) (the result) final_block (objects w_min)) = calls_during w_min w_full"
    "snd (snd (loaders_effect env (the player) (the result) final_block (objects w_min))) = objects w_full"
    "okf \<longleftrightarrow> fst (snd (loaders_effect env (the player) (the result) final_block (objects w_min))) = None"
    "objects w_full = foldl (\<lambda>h l. snd (loader_call env (the player) (the result) l h))
                               (objects w_min) (calls_during w_min w_full)"
    using e by blast+
next
  assume n: "result = None \<or> player = None"
  show "objects w_min = objects w"
    using loadPlayer_null [OF n, of env True w] m by (auto simp add: warn_def)
  show "objects w_full = objects w"
    using loadPlayer_null [OF n, of env False w] f by (auto simp add: warn_def)
qed

theorem minimal_prefix_of_full_witness:
  "calls_during fresh_load (snd (loadPlayer (recording_loaders None) (Some ()) (Some ()) True fresh_load))
      = minimal_order
   \<and> calls_during fresh_load (snd (loadPlayer (recording_loaders None) (Some ()) (Some ()) False fresh_load))
      = minimal_order @ final_block
   \<and> prefix minimal_order (minimal_order @ final_block)
   \<and> objects (snd (loadPlayer (recording_loaders None) (Some ()) (Some ()) False fresh_load))
      = foldl (\<lambda>h l. snd (loader_call (recording_loaders None) () () l h)) minimal_order final_block"
proof -
  let ?wmin = "\<lparr>objects = minimal_order, invoked = minimal_order, warnings = []\<rparr>"
  let ?wfull = "\<lparr>objects = loader_order, invoked = loader_order, warnings = []\<rparr>"
  have cm: "calls_during fresh_load ?wmin = minimal_order"
    by (simp add: calls_during_def fresh_load_def)
  have cf: "calls_during fresh_load ?wfull = minimal_order @ final_block"
    by (simp add: calls_during_def fresh_load_def loader_order_def)
  have cmf: "calls_during ?wmin ?wfull = final_block"
    by (simp add: calls_during_def loader_order_def)
  note inst = minimal_prefix_of_full [OF recording_minimal_run recording_full_run]
  from inst [THEN conjunct1]
  have "prefix (calls_during fresh_load ?wmin) (calls_during fresh_load ?wfull)"
    by (rule conjunct1)
  moreover from inst [THEN conjunct2, THEN conjunct2, THEN conjunct1]
  have "objects ?wfull = foldl (\<lambda>h l. snd (loader_call (recording_loaders None) () () l h))
                               (objects ?wmin) (calls_during ?wmin ?wfull)"
    unfolding option.sel by simp
  ultimately show ?thesis
    by (simp add: cm cf cmf recording_minimal_run recording_full_run)
qed

text \<open>
  Claim C7, as amended. \<^const>\<open>loadPlayer\<close> fails at its null check (it returns
  \<open>False\<close>, calls no loader, and logs which pointer is null: the result when that is
  null, the player otherwise) exactly when the result or the player is absent, one of
  them being enough. A lookup by id or by name that finds no row takes this same exit,
  logged as a null result; the function has one failure value, \<open>False\<close>.
\<close>

theorem loadPlayer_null_check:
  "(loadPlayer env player result minimal w =
      (False, warn (''[loadPlayer] - '' @ (if result = None then ''Result'' else ''Player'') @ '' is nullptr'') w))
     = (result = None \<or> player = None)
   \<and> (load_storeQuery env (SelectPlayerById ident (load_worldId env)) (objects w) = None \<longrightarrow>
        loadPlayerById env player ident minimal w = (False, warn ''[loadPlayer] - Result is nullptr'' w))
   \<and> (load_storeQuery env (SelectPlayerByName (load_escapeString env name) (load_worldId env)) (objects w) = None \<longrightarrow>
        loadPlayerByName env player name minimal w = (False, warn ''[loadPlayer] - Result is nullptr'' w))"
proof (intro conjI)
  show "(loadPlayer env player result minimal w =
      (False, warn (''[loadPlayer] - '' @ (if result = None then ''Result'' else ''Player'') @ '' is nullptr'') w))
     = (result = None \<or> player = None)"
  proof
    assume eq: "loadPlayer env player result minimal w =
      (False, warn (''[loadPlayer] - '' @ (if result = None then ''Result'' else ''Player'') @ '' is nullptr'') w)"
    show "result = None \<or> player = None"
    proof (rule ccontr)
      assume "\<not> (result = None \<or> player = None)"
      then have "player \<noteq> None" "result \<noteq> None" by simp_all
      from loadPlayer_calls [of env "the player" "the result" minimal w False] eq this
      obtain tr where "invoked (warn (''[loadPlayer] - '' @ (if result = None then ''Result'' else ''Player'') @ '' is nullptr'') w) = invoked w @ tr" "tr \<noteq> []"
        by auto
      then show False by (simp add: warn_def)
    qed
  next
    assume "result = None \<or> player = None"
    then show "loadPlayer env player result minimal w =
      (False, warn (''[loadPlayer] - '' @ (if result = None then ''Result'' else ''Player'') @ '' is nullptr'') w)"
      by (rule loadPlayer_null)
  qed
qed (simp_all add: loadPlayerById_def loadPlayerByName_def loadPlayer_def)

theorem loadPlayer_null_check_witness:
  "loadPlayerById ((recording_loaders None)\<lparr>load_storeQuery := (\<lambda>q h. None)\<rparr>) (Some ()) 42 False fresh_load
     = (False, warn ''[loadPlayer] - Result is nullptr'' fresh_load)
   \<and> loadPlayer (recording_loaders None) None (Some ()) False fresh_load
     = (False, warn ''[loadPlayer] - Player is nullptr'' fresh_load)"
proof -
  let ?env = "(recording_loaders None)\<lparr>load_storeQuery := (\<lambda>q h. None)\<rparr>"
  have none: "load_storeQuery ?env (SelectPlayerById 42 (load_worldId ?env)) (objects fresh_load) = None"
    by simp
  from loadPlayer_null_check [of ?env "Some ()" "None" False fresh_load 42 "''x''"] none
  have a: "loadPlayerById ?env (Some ()) 42 False fresh_load
     = (False, warn ''[loadPlayer] - Result is nullptr'' fresh_load)"
    by blast
  from loadPlayer_null_check [of "recording_loaders None" None "Some ()" False fresh_load 42 "''x''"]
  have b: "loadPlayer (recording_loaders None) None (Some ()) False fresh_load
     = (False, warn ''[loadPlayer] - Player is nullptr'' fresh_load)"
    by simp
  from a b show ?thesis by (rule conjI)
qed

theorem loadPlayer_null_check_counterexample:
  "\<not> (\<forall>player result.
        (loadPlayer (recording_loaders None) player result False fresh_load =
           (False, warn (''[loadPlayer] - '' @ (if result = None then ''Result'' else ''Player'') @ '' is nullptr'')
                     fresh_load))
        = (player = None \<and> result = None))"
proof
  assume "\<forall>player result.
        (loadPlayer (recording_loaders None) player result False fresh_load =
           (False, warn (''[loadPlayer] - '' @ (if result = None then ''Result'' else ''Player'') @ '' is nullptr'')
                     fresh_load))
        = (player = None \<and> result = None)"
  then have "(loadPlayer (recording_loaders None) None (Some ()) False fresh_load =
           (False, warn (''[loadPlayer] - '' @ (if Some () = None then ''Result'' else ''Player'') @ '' is nullptr'')
                     fresh_load))
        = ((None :: unit option) = None \<and> Some () = None)"
    by (rule allE [where x = None], elim allE [where x = "Some ()"])
  moreover have "loadPlayer (recording_loaders None) None (Some ()) False fresh_load =
           (False, warn (''[loadPlayer] - '' @ (if Some () = None then ''Result'' else ''Player'') @ '' is nullptr'')
                     fresh_load)"
    by (rule loadPlayer_null) simp
  ultimately show False by simp
qed

section \<open>Properties of the save transaction\<close>

lemma attempt_step:
  assumes "\<And>w. caught (rest w) = run_savers env p ss w"
  shows "caught (and_then (attempt env s p msg) rest w) = run_savers env p (s # ss) w"
  using assms by (simp add: and_then_def attempt_def split: prod.splits)

lemma savePlayerGuard_run:
  "caught (savePlayerGuard env (Some p) w) = run_savers env p saver_order w"
  unfolding savePlayerGuard_def saver_order_def option.case
  by (rule attempt_step)+ (simp add: return_value_def)

lemma and_then_only_true:
  assumes "\<And>w. fst (rest w) \<noteq> Inr False"
  shows "fst (and_then stmt rest w) \<noteq> Inr False"
  using assms by (simp add: and_then_def split: prod.splits option.splits)

lemma savePlayerGuard_only_true:
  "fst (savePlayerGuard env player w) \<noteq> Inr False"
proof (cases player)
  case None
  then show ?thesis by (simp add: savePlayerGuard_def)
next
  case (Some p)
  show ?thesis
    unfolding savePlayerGuard_def Some option.case
    by (rule and_then_only_true)+ (simp add: return_value_def)
qed

lemma run_savers_effect:
  "run_savers env p ss w = (ok, w') \<Longrightarrow>
     errors w' = errors w \<and>
     (if ok then saved w' = saved w @ ss
      else \<exists>done s rest w1. ss = done @ s # rest \<and> run_savers env p done w = (True, w1)
             \<and> \<not> fst (save_step env s p (store w1)) \<and> saved w' = saved w @ done @ [s])"
proof (induction ss arbitrary: w)
  case Nil
  then show ?case by auto
next
  case (Cons s ss)
  obtain b db where st: "save_step env s p (store w) = (b, db)" by force
  let ?w1 = "w\<lparr>store := db, saved := saved w @ [s]\<rparr>"
  show ?case
  proof (cases b)
    case False
    with Cons.prems st have nok: "\<not> ok" and w': "w' = ?w1" by simp_all
    have e: "errors w' = errors w" by (simp add: w')
    have "s # ss = [] @ s # ss \<and> run_savers env p [] w = (True, w)
             \<and> \<not> fst (save_step env s p (store w)) \<and> saved w' = saved w @ [] @ [s]"
      using st False by (simp add: w')
    then have "\<exists>done s' rest w1. s # ss = done @ s' # rest \<and> run_savers env p done w = (True, w1)
             \<and> \<not> fst (save_step env s' p (store w1)) \<and> saved w' = saved w @ done @ [s']"
      by blast
    with e nok show ?thesis by (simp only: if_False simp_thms)
  next
    case True
    with Cons.prems st have rec: "run_savers env p ss ?w1 = (ok, w')" by simp
    from Cons.IH [OF rec] have e: "errors w' = errors w" by simp
    show ?thesis
    proof (cases ok)
      case True
      with Cons.IH [OF rec] e show ?thesis by simp
    next
      case False
      with Cons.IH [OF rec] obtain dn s' rest w1 where
        d: "ss = dn @ s' # rest" "run_savers env p dn ?w1 = (True, w1)"
           "\<not> fst (save_step env s' p (store w1))" "saved w' = saved ?w1 @ dn @ [s']"
        by auto
      have "s # ss = (s # dn) @ s' # rest \<and> run_savers env p (s # dn) w = (True, w1)
             \<and> \<not> fst (save_step env s' p (store w1)) \<and> saved w' = saved w @ (s # dn) @ [s']"
        using d st True by simp
      then have "\<exists>done s' rest w1. s # ss = done @ s' # rest \<and> run_savers env p done w = (True, w1)
             \<and> \<not> fst (save_step env s' p (store w1)) \<and> saved w' = saved w @ done @ [s']"
        by blast
      with e False show ?thesis by (simp only: if_False simp_thms)
    qed
  qed
qed

lemma savePlayer_null:
  "savePlayer env commits None w =
     (False, w\<lparr>errors := errors w @ [(LogError, ''[savePlayer] Error occurred saving player'')]\<rparr>)"
  by (simp add: savePlayer_def executeWithinTransaction_def savePlayerGuard_def)

lemma savePlayer_run:
  "savePlayer env commits (Some p) w =
     (case run_savers env p saver_order w of
        (r, w1) \<Rightarrow>
          if r \<and> commits (store w1) then (True, w1)
          else (False, w1\<lparr>store := store w,
                          errors := errors w1 @ [(LogError, ''[savePlayer] Error occurred saving player'')]\<rparr>))"
proof -
  obtain x w1 where g: "savePlayerGuard env (Some p) w = (x, w1)" by force
  have nf: "x \<noteq> Inr False"
    using savePlayerGuard_only_true [of env "Some p" w] g by simp
  have c: "run_savers env p saver_order w = caught (x, w1)"
    using savePlayerGuard_run [of env p w] g by simp
  show ?thesis
  proof (cases x)
    case (Inl e)
    then show ?thesis
      by (simp add: c savePlayer_def executeWithinTransaction_def g)
  next
    case (Inr b)
    with nf have "b" by simp
    with Inr show ?thesis
      by (simp add: c savePlayer_def executeWithinTransaction_def g)
  qed
qed

text \<open>
  Claim C1. Whatever the savers do and whatever the player is, \<^const>\<open>savePlayer\<close>
  returns \<open>True\<close> exactly when there is a player, every saver of
  \<^const>\<open>saver_order\<close> succeeds in turn and the store accepts the commit; then all
  the savers have been called and the store holds their writes. In every other case it
  returns \<open>False\<close> and the store is the one the call started from. When a saver fails,
  the first one included, the calls made are the savers before it and the failing one,
  and none behind it. A refused commit behind fifteen successful savers gives \<open>False\<close>.
\<close>

theorem savePlayer_atomic:
  assumes "savePlayer env commits player w = (ok, w')"
  shows "(\<not> ok \<longrightarrow> store w' = store w)
       \<and> (ok \<longleftrightarrow> (\<exists>p. player = Some p \<and> fst (run_savers env p saver_order w)
                      \<and> commits (store (snd (run_savers env p saver_order w)))))
       \<and> (ok \<longrightarrow> saved w' = saved w @ saver_order \<and> commits (store w')
                \<and> (\<forall>p. player = Some p \<longrightarrow> w' = snd (run_savers env p saver_order w)))
       \<and> (\<forall>p. player = Some p \<and> \<not> fst (run_savers env p saver_order w) \<longrightarrow>
             \<not> ok \<and>
             (\<exists>done s rest w1. saver_order = done @ s # rest
                \<and> run_savers env p done w = (True, w1)
                \<and> \<not> fst (save_step env s p (store w1))
                \<and> saved w' = saved w @ done @ [s]))
       \<and> (\<forall>p. player = Some p \<and> fst (run_savers env p saver_order w)
                \<and> \<not> commits (store (snd (run_savers env p saver_order w))) \<longrightarrow> \<not> ok)"
proof (cases player)
  case None
  with assms savePlayer_null [of env commits w] show ?thesis by auto
next
  case (Some p)
  obtain r w1 where run: "run_savers env p saver_order w = (r, w1)" by force
  note eff = run_savers_effect [OF run]
  let ?failed = "w1\<lparr>store := store w,
                     errors := errors w1 @ [(LogError, ''[savePlayer] Error occurred saving player'')]\<rparr>"
  have sp: "(ok, w') = (if r \<and> commits (store w1) then (True, w1) else (False, ?failed))"
    using assms savePlayer_run [of env commits p w] run Some by simp
  show ?thesis
  proof (cases "r \<and> commits (store w1)")
    case True
    with sp have "ok" "w' = w1" by simp_all
    with True eff show ?thesis by (simp add: Some run)
  next
    case False
    with sp have nok: "\<not> ok" and w': "w' = ?failed" by simp_all
    have st: "store w' = store w" and sv: "saved w' = saved w1" by (simp_all add: w')
    show ?thesis
    proof (cases r)
      case True
      with False nok st show ?thesis by (simp add: Some run)
    next
      case False
      with eff have "\<exists>done s rest w2. saver_order = done @ s # rest
                \<and> run_savers env p done w = (True, w2)
                \<and> \<not> fst (save_step env s p (store w2))
                \<and> saved w' = saved w @ done @ [s]"
        by (simp only: sv if_False simp_thms)
      with False nok st show ?thesis by (simp add: Some run)
    qed
  qed
qed

lemma row_savers_ninth_fails:
  "savePlayer (row_savers (Some SavePlayerInbox)) (\<lambda>db. True) (Some ''Alice'') fresh_save =
     (False, \<lparr>store = [], saved = take 9 saver_order,
              errors = [(LogError, ''[savePlayer] Error occurred saving player'')]\<rparr>)"
  by (simp add: savePlayer_def executeWithinTransaction_def savePlayerGuard_def and_then_def
      attempt_def return_value_def row_savers_def fresh_save_def saver_order_def)

lemma row_savers_all_succeed:
  "savePlayer (row_savers None) (\<lambda>db. True) (Some ''Alice'') fresh_save =
     (True, \<lparr>store = saver_order, saved = saver_order, errors = []\<rparr>)"
  by (simp add: savePlayer_def executeWithinTransaction_def savePlayerGuard_def and_then_def
      attempt_def return_value_def row_savers_def fresh_save_def saver_order_def)

lemma row_savers_commit_refused:
  "savePlayer (row_savers None) (\<lambda>db. False) (Some ''Alice'') fresh_save =
     (False, \<lparr>store = [], saved = saver_order,
              errors = [(LogError, ''[savePlayer] Error occurred saving player'')]\<rparr>)"
  by (simp add: savePlayer_def executeWithinTransaction_def savePlayerGuard_def and_then_def
      attempt_def return_value_def row_savers_def fresh_save_def saver_order_def)

theorem savePlayer_atomic_witness:
  "fst (savePlayer (row_savers (Some SavePlayerInbox)) (\<lambda>db. True) (Some ''Alice'') fresh_save) = False
   \<and> store (snd (savePlayer (row_savers (Some SavePlayerInbox)) (\<lambda>db. True) (Some ''Alice'') fresh_save))
       = store fresh_save
   \<and> fst (savePlayer (row_savers None) (\<lambda>db. False) (Some ''Alice'') fresh_save) = False
   \<and> store (snd (savePlayer (row_savers None) (\<lambda>db. False) (Some ''Alice'') fresh_save))
       = store fresh_save
   \<and> fst (savePlayer (row_savers None) (\<lambda>db. True) (Some ''Alice'') fresh_save) = True"
proof -
  from savePlayer_atomic [OF row_savers_ninth_fails]
  have "\<not> False \<longrightarrow> store \<lparr>store = [], saved = take 9 saver_order,
              errors = [(LogError, ''[savePlayer] Error occurred saving player'')]\<rparr> = store fresh_save"
    by (rule conjunct1)
  moreover from savePlayer_atomic [OF row_savers_commit_refused]
  have "\<not> False \<longrightarrow> store \<lparr>store = [], saved = saver_order,
              errors = [(LogError, ''[savePlayer] Error occurred saving player'')]\<rparr> = store fresh_save"
    by (rule conjunct1)
  ultimately show ?thesis
    by (simp add: row_savers_ninth_fails row_savers_commit_refused row_savers_all_succeed)
qed

text \<open>
  Claim C2. When \<^const>\<open>savePlayerGuard\<close> returns (it then returns \<open>True\<close>: every
  failure leaves it by an exception), the saver calls it has made are exactly
  \<^const>\<open>saver_order\<close>, each saver once, in that order: base fields, stash, spells,
  kills, bestiary, items, depot items, reward items, inbox, prey, task hunting, forge
  history, bosstiary, wheel points, storage; and each has returned \<open>True\<close>.
\<close>

theorem savePlayerGuard_fixed_order:
  assumes "savePlayerGuard env player w = (Inr b, w')"
  shows "b \<and> player \<noteq> None \<and> saved w' = saved w @ saver_order
         \<and> (\<forall>p. player = Some p \<longrightarrow> run_savers env p saver_order w = (True, w'))"
proof (cases player)
  case None
  with assms show ?thesis by (simp add: savePlayerGuard_def)
next
  case (Some p)
  have b: "b" using savePlayerGuard_only_true [of env player w] assms by (cases b) simp_all
  have run: "run_savers env p saver_order w = (True, w')"
    using savePlayerGuard_run [of env p w] assms Some b by simp
  from run_savers_effect [OF run] have "saved w' = saved w @ saver_order" by simp
  with b run Some show ?thesis by simp
qed

lemma row_savers_guard_returns:
  "savePlayerGuard (row_savers None) (Some ''Alice'') fresh_save =
     (Inr True, \<lparr>store = saver_order, saved = saver_order, errors = []\<rparr>)"
  by (simp add: savePlayerGuard_def and_then_def
      attempt_def return_value_def row_savers_def fresh_save_def saver_order_def)

theorem savePlayerGuard_fixed_order_witness:
  "saved (snd (savePlayerGuard (row_savers None) (Some ''Alice'') fresh_save)) =
     [SavePlayerFirst, SavePlayerStash, SavePlayerSpells, SavePlayerKills,
      SavePlayerBestiarySystem, SavePlayerItem, SavePlayerDepotItems, SaveRewardItems,
      SavePlayerInbox, SavePlayerPreyClass, SavePlayerTaskHuntingClass,
      SavePlayerForgeHistory, SavePlayerBosstiary, SaveDBPlayerSlotPointsOnLogout,
      SavePlayerStorage]"
proof -
  from savePlayerGuard_fixed_order [OF row_savers_guard_returns]
  have "saved \<lparr>store = saver_order, saved = saver_order, errors = []\<rparr> = saved fresh_save @ saver_order"
    by blast
  then have "saved \<lparr>store = saver_order, saved = saver_order, errors = []\<rparr> = saver_order"
    by (simp add: fresh_save_def)
  then show ?thesis
    by (simp add: row_savers_guard_returns saver_order_def)
qed

text \<open>
  Claim C8. For the null player \<^const>\<open>savePlayerGuard\<close> fails at once: it throws its
  \<^verbatim>\<open>DatabaseException\<close> from the state it was called in, before any saver call.
  So \<^const>\<open>savePlayer\<close> of the null player returns \<open>False\<close>; it has called no
  saver, the store is as it was, and the only change is the error line in the log.
\<close>

theorem savePlayer_null_player:
  "savePlayerGuard env None w
     = (Inl (DatabaseException ''Player nullptr in function: savePlayerGuard''), w)
   \<and> savePlayer env commits None w
     = (False, w\<lparr>errors := errors w @ [(LogError, ''[savePlayer] Error occurred saving player'')]\<rparr>)
   \<and> fst (savePlayer env commits None w) = False
   \<and> store (snd (savePlayer env commits None w)) = store w
   \<and> saved (snd (savePlayer env commits None w)) = saved w"
  by (simp add: savePlayerGuard_def savePlayer_null)

section \<open>Properties of the authentication\<close>

text \<open>
  Claim C9. Name the objects of a call as the code produces them: the account after the
  constructor and \<^verbatim>\<open>setProtocolCompat\<close>, after the first load, after the
  authentication that \<^verbatim>\<open>AUTH_TYPE\<close> selects, after the second load, and the
  players that \<^verbatim>\<open>getAccountPlayers\<close> then returns. If those players map the
  requested character name to a deletion marker other than zero, the call returns
  \<open>False\<close> and leaves \<^verbatim>\<open>accountId\<close> as it was passed in, whatever the earlier
  steps returned.
\<close>

theorem deleted_character_fails:
  assumes "account0 = acc_setProtocolCompat api oldProtocol (acc_new api accountDescriptor)"
      and "acc_load api account0 = (code1, account1)"
      and "(if AUTH_TYPE api = ''session'' then acc_authenticate api account1
            else acc_authenticate_password api password account1) = (authenticated, account2)"
      and "acc_load api account2 = (code2, account3)"
      and "acc_getAccountPlayers api account3 = ((players, result), account4)"
      and "players characterName = Some deletion" and "deletion \<noteq> 0"
  shows "fst (gameWorldAuthentication api accountDescriptor password characterName accountId oldProtocol logged)
           = False
       \<and> fst (snd (gameWorldAuthentication api accountDescriptor password characterName accountId oldProtocol logged))
           = accountId"
  using assms
  by (simp add: gameWorldAuthentication_def deletion_of_def Let_def split: if_splits)

theorem deleted_character_fails_witness:
  "gameWorldAuthentication (one_account [''Knight'' \<mapsto> 1700000000]) ''alice'' ''secret'' ''Knight'' 0 False []
     = (False, 0, [(LogError, ''Account [alice] player [Knight] not found or deleted.'')])
   \<and> gameWorldAuthentication (one_account [''Knight'' \<mapsto> 0]) ''alice'' ''secret'' ''Knight'' 0 False []
     = (True, 77, [])"
proof -
  let ?api = "one_account [''Knight'' \<mapsto> 1700000000]"
  have "fst (gameWorldAuthentication ?api ''alice'' ''secret'' ''Knight'' 0 False []) = False
       \<and> fst (snd (gameWorldAuthentication ?api ''alice'' ''secret'' ''Knight'' 0 False [])) = 0"
    by (rule deleted_character_fails [where ?account0.0 = "()" and ?account1.0 = "()" and ?account2.0 = "()"
          and ?account3.0 = "()" and ?account4.0 = "()" and ?code1.0 = 0 and ?code2.0 = 0 and result = 0
          and authenticated = True and players = "[''Knight'' \<mapsto> 1700000000]" and deletion = 1700000000])
       (simp_all add: one_account_def)
  then show ?thesis
    by (simp add: gameWorldAuthentication_def deletion_of_def one_account_def)
qed

section \<open>Properties of the lookup by name\<close>

text \<open>
  Claim C10. When the query for the name in the current world yields no result,
  \<^const>\<open>getGuidByName\<close> returns \<open>0\<close>; its result type has no error value. A
  database in which the query finds a row whose id is \<open>0\<close> gives the same answer, so
  the caller cannot tell the two apart.
\<close>

theorem getGuidByName_zero_sentinel:
  assumes "lookup_storeQuery env (SelectIdByName (lookup_escapeString env name) (lookup_worldId env)) db = None"
  shows "getGuidByName env name db = 0
       \<and> (\<forall>db' r. lookup_storeQuery env (SelectIdByName (lookup_escapeString env name) (lookup_worldId env)) db' = Some r
                    \<and> getNumber_id env r = 0 \<longrightarrow>
                  getGuidByName env name db' = getGuidByName env name db)"
  using assms by (simp add: getGuidByName_def)

theorem getGuidByName_zero_sentinel_witness:
  "getGuidByName players_db ''Knight'' [(5, ''Knight'', 2), (6, ''Druid'', 1)] = 0
   \<and> getGuidByName players_db ''Knight'' [(0, ''Knight'', 1)] = 0
   \<and> getGuidByName players_db ''Druid'' [(5, ''Knight'', 2), (6, ''Druid'', 1)] = 6"
proof -
  have "lookup_storeQuery players_db (SelectIdByName (lookup_escapeString players_db ''Knight'') (lookup_worldId players_db))
          [(5, ''Knight'', 2), (6, ''Druid'', 1)] = None"
    by (simp add: players_db_def)
  from getGuidByName_zero_sentinel [OF this]
  have "getGuidByName players_db ''Knight'' [(5, ''Knight'', 2), (6, ''Druid'', 1)] = 0"
    by (rule conjunct1)
  then show ?thesis
    by (simp add: getGuidByName_def players_db_def)
qed

section \<open>Properties of the online status tracker\<close>

text \<open>
  Claim C6. A second \<^verbatim>\<open>updateOnlineStatus(guid, true)\<close> right after a first one
  changes nothing, in every state and for every identity. For an identity other than zero
  that is not tracked yet, the two calls together add one to the
  \<^verbatim>\<open>players_online\<close> counter, execute the insert once and track the identity. For
  the identity zero, and for an identity that is tracked already, a call changes nothing.
\<close>

theorem markOnline_twice:
  "updateOnlineStatus env guid True (updateOnlineStatus env guid True s)
     = updateOnlineStatus env guid True s
   \<and> updateOnlineStatus env 0 True s = s
   \<and> (guid \<noteq> 0 \<and> updateOnline s guid = None \<longrightarrow>
        updateOnlineStatus env guid True (updateOnlineStatus env guid True s)
          = s\<lparr>metrics := (metrics s)(''players_online'' := metrics s ''players_online'' + 1),
              updateOnline := (updateOnline s)(guid \<mapsto> True),
              database := snd (executeQuery env (InsertPlayersOnline guid (worldId env)) (database s))\<rparr>)
   \<and> (updateOnline s guid \<noteq> None \<longrightarrow> updateOnlineStatus env guid True s = s)"
  by (auto simp add: updateOnlineStatus_def addUpDownCounter_def)

theorem markOnline_twice_witness:
  "(7 :: uint32_t) \<noteq> 0 \<and> updateOnline nobody_online 7 = None
   \<and> metrics (updateOnlineStatus world_one 7 True (updateOnlineStatus world_one 7 True nobody_online))
        ''players_online'' = 1
   \<and> database (updateOnlineStatus world_one 7 True (updateOnlineStatus world_one 7 True nobody_online))
        = [InsertPlayersOnline 7 1]"
proof -
  have h: "(7 :: uint32_t) \<noteq> 0 \<and> updateOnline nobody_online 7 = None"
    by (simp add: nobody_online_def)
  from markOnline_twice [of world_one 7 nobody_online] h
  have "updateOnlineStatus world_one 7 True (updateOnlineStatus world_one 7 True nobody_online)
          = nobody_online\<lparr>metrics := (metrics nobody_online)(''players_online'' := metrics nobody_online ''players_online'' + 1),
              updateOnline := (updateOnline nobody_online)(7 \<mapsto> True),
              database := snd (executeQuery world_one (InsertPlayersOnline 7 (worldId world_one)) (database nobody_online))\<rparr>"
    by blast
  then show ?thesis
    by (simp add: nobody_online_def world_one_def)
qed

text \<open>
  Claim C5, as amended. \<^verbatim>\<open>updateOnlineStatus(guid, false)\<close> for an identity that is
  not tracked returns normally and leaves the tracked map as it is; for the identity zero
  it changes nothing at all, and for every other identity it still subtracts one from the
  \<^verbatim>\<open>players_online\<close> counter and executes the delete for (identity, world).
\<close>

theorem markOffline_untracked:
  assumes "updateOnline s guid = None"
  shows "updateOnlineStatus env guid False s =
     (if guid = 0 then s
      else s\<lparr>metrics := (metrics s)(''players_online'' := metrics s ''players_online'' - 1),
             database := snd (executeQuery env (DeletePlayersOnline guid (worldId env)) (database s))\<rparr>)"
proof -
  have "(updateOnline s)(guid := None) = updateOnline s"
    using assms by (simp add: fun_upd_idem)
  then show ?thesis
    by (simp add: updateOnlineStatus_def addUpDownCounter_def)
qed

theorem markOffline_untracked_witness:
  "updateOnline nobody_online 7 = None \<and>
   updateOnlineStatus world_one 7 False nobody_online =
     nobody_online\<lparr>metrics := (metrics nobody_online)(''players_online'' := - 1),
                   database := [DeletePlayersOnline 7 1]\<rparr>"
proof -
  have u: "updateOnline nobody_online 7 = None"
    by (simp add: nobody_online_def)
  show ?thesis
    using u markOffline_untracked [OF u, of world_one]
    by (simp add: nobody_online_def world_one_def)
qed

theorem markOffline_untracked_counterexample:
  "updateOnline nobody_online 7 = None
   \<and> metrics nobody_online ''players_online'' = 0
   \<and> metrics (updateOnlineStatus world_one 7 False nobody_online) ''players_online'' = - 1
   \<and> updateOnlineStatus world_one 7 False nobody_online \<noteq> nobody_online"
proof -
  have m: "metrics (updateOnlineStatus world_one 7 False nobody_online) ''players_online'' = - 1"
    by (simp add: updateOnlineStatus_def addUpDownCounter_def nobody_online_def world_one_def)
  have "metrics nobody_online ''players_online'' = 0"
    by (simp add: nobody_online_def)
  with m have "updateOnlineStatus world_one 7 False nobody_online \<noteq> nobody_online"
    by auto
  with m show ?thesis by (simp add: nobody_online_def)
qed

end
